theory Spec2Isabelle
  imports Main
begin

section \<open>Strings\<close>

text \<open>
  A JavaScript string is modelled as a HOL \<open>string\<close>, one \<open>char\<close> per code unit.
  The model is that of ASCII strings, which is what the addresses and the configuration
  of the worker are made of: \<open>toLowerCase\<close> maps the letters \<open>A\<close> to \<open>Z\<close> and leaves
  every other character as it is, and \<open>trim\<close> removes the ASCII white space.
\<close>

definition upperCaseLetters :: string where
  "upperCaseLetters = ''ABCDEFGHIJKLMNOPQRSTUVWXYZ''"

definition lowerCaseLetters :: string where
  "lowerCaseLetters = ''abcdefghijklmnopqrstuvwxyz''"

definition digits :: string where
  "digits = ''0123456789''"

definition toLowerChar :: "char \<Rightarrow> char" where
  "toLowerChar c =
     (case map_of (zip upperCaseLetters lowerCaseLetters) c of Some d \<Rightarrow> d | None \<Rightarrow> c)"

definition toLowerCase :: "string \<Rightarrow> string" where
  "toLowerCase s = map toLowerChar s"

text \<open>Tab, line feed, vertical tab, form feed, carriage return and space.\<close>

definition isWhiteSpace :: "char \<Rightarrow> bool" where
  "isWhiteSpace c = (c \<in> set [CHR 0x09, CHR 0x0A, CHR 0x0B, CHR 0x0C, CHR 0x0D, CHR '' ''])"

definition trim :: "string \<Rightarrow> string" where
  "trim s = rev (dropWhile isWhiteSpace (rev (dropWhile isWhiteSpace s)))"

text \<open>\<open>base.startsWith(test)\<close>\<close>

definition startsWith :: "string \<Rightarrow> string \<Rightarrow> bool" where
  "startsWith base test = (take (length test) base = test)"

text \<open>
  \<open>s.indexOf(t)\<close>: the least position at which \<open>t\<close> occurs in \<open>s\<close>, or \<open>-1\<close>.
  The empty string occurs at position 0 of every string.
\<close>

fun indexOfFrom :: "nat \<Rightarrow> string \<Rightarrow> string \<Rightarrow> int" where
  "indexOfFrom i [] t = (if t = [] then int i else - 1)"
| "indexOfFrom i (c # cs) t =
     (if startsWith (c # cs) t then int i else indexOfFrom (Suc i) cs t)"

definition indexOf :: "string \<Rightarrow> string \<Rightarrow> int" where
  "indexOf s t = indexOfFrom 0 s t"

text \<open>\<open>s.includes(t)\<close>\<close>

definition includes_str :: "string \<Rightarrow> string \<Rightarrow> bool" where
  "includes_str s t = (0 \<le> indexOf s t)"

text \<open>
  \<open>s.slice(a, b)\<close> and \<open>s.slice(a)\<close> for non-negative indices (the only ones the worker
  passes); indices beyond the end are clamped, as \<open>take\<close> and \<open>drop\<close> do.
\<close>

definition slice :: "string \<Rightarrow> nat \<Rightarrow> nat \<Rightarrow> string" where
  "slice s a b = take (b - a) (drop a s)"

definition sliceFrom :: "string \<Rightarrow> nat \<Rightarrow> string" where
  "sliceFrom s a = drop a s"

text \<open>
  \<open>s.split(sep)\<close> with a string separator. A non-empty separator cuts \<open>s\<close> at its
  occurrences, found from left to right without overlap, and always yields at least one
  piece; the empty separator cuts \<open>s\<close> into its code units (none for the empty string).
\<close>

function splitNonEmpty :: "string \<Rightarrow> string \<Rightarrow> string \<Rightarrow> string list" where
  "splitNonEmpty sep cur [] = [cur]"
| "splitNonEmpty sep cur (c # cs) =
     (if sep \<noteq> [] \<and> startsWith (c # cs) sep
      then cur # splitNonEmpty sep [] (drop (length sep) (c # cs))
      else splitNonEmpty sep (cur @ [c]) cs)"
  by pat_completeness auto
termination
  by (relation "measure (\<lambda>(sep, cur, s). length s)") auto

definition split :: "string \<Rightarrow> string \<Rightarrow> string list" where
  "split s sep = (if sep = [] then map (\<lambda>c. [c]) s else splitNonEmpty sep [] s)"

text \<open>\<open>xs.at(i)\<close> for a non-negative index: \<open>None\<close> stands for \<open>undefined\<close>.\<close>

definition at :: "'a list \<Rightarrow> nat \<Rightarrow> 'a option" where
  "at xs i = (if i < length xs then Some (xs ! i) else None)"

section \<open>FIXED\<close>

definition isAlphanumeric :: "char \<Rightarrow> bool" where
  "isAlphanumeric c = (c \<in> set (upperCaseLetters @ lowerCaseLetters @ digits))"

text \<open>
  \<open>FIXED.startsWithNonAlphanumericRegExp.test(s)\<close>, the pattern being \<open>/^[^A-Z0-9]/i\<close>:
  the string has a first character and it is neither a letter nor a digit.
\<close>

definition startsWithNonAlphanumericRegExp :: "string \<Rightarrow> bool" where
  "startsWithNonAlphanumericRegExp s = (case s of [] \<Rightarrow> False | c # _ \<Rightarrow> \<not> isAlphanumeric c)"

text \<open>The \<open>test\<close> of a prepend condition is a string or a regular expression.\<close>

datatype prependTest = StringTest string | RegExpTest "string \<Rightarrow> bool"

fun shouldPrepend :: "prependTest \<Rightarrow> string \<Rightarrow> bool" where
  "shouldPrepend (StringTest t) base = startsWith base t"
| "shouldPrepend (RegExpTest r) base = r base"

fun prepend :: "string \<Rightarrow> (prependTest \<times> string) list \<Rightarrow> string" where
  "prepend base [] = base"
| "prepend base ((test, pre) # prependConditions) =
     (if shouldPrepend test base then pre @ base else prepend base prependConditions)"

section \<open>The message, the transport and the exceptions\<close>

text \<open>
  \<open>message.forward(address, headers)\<close> is owned by the platform. It either resolves or
  rejects. Of the value it rejects with, the worker reads the \<open>message\<close> only, so a
  rejection with an error is modelled by the message of the error, \<open>Rejected msg\<close>. A
  promise may also reject with \<open>null\<close> or \<open>undefined\<close>, which have no properties:
  this is \<open>RejectedNullish\<close>. The answer of the transport may depend on everything that
  happened before (the tests reject the first call and resolve the second), so the
  transport is a function of a world state \<open>'w\<close> that it updates. Every call is
  recorded with its outcome, as the spies of the test suite do, and so is every call of
  \<open>message.setReject(reason)\<close>.
\<close>

datatype outcome = Resolved | Rejected string | RejectedNullish

type_synonym headers = "string \<times> string"

type_synonym forwardCall = "string \<times> headers \<times> outcome"

record 'w message =
  to :: string
  forward :: "string \<Rightarrow> headers \<Rightarrow> 'w \<Rightarrow> outcome \<times> 'w"

record 'w state =
  world :: 'w
  forwardCalls :: "forwardCall list"
  rejectCalls :: "string list"

definition initialState :: "'w \<Rightarrow> 'w state" where
  "initialState w = \<lparr>world = w, forwardCalls = [], rejectCalls = []\<rparr>"

definition callForward :: "'w message \<Rightarrow> string \<Rightarrow> headers \<Rightarrow> 'w state \<Rightarrow> outcome \<times> 'w state" where
  "callForward message address customHeaders st =
     (let (out, w) = forward message address customHeaders (world st)
      in (out, st\<lparr>world := w, forwardCalls := forwardCalls st @ [(address, customHeaders, out)]\<rparr>))"

definition setReject :: "string \<Rightarrow> 'w state \<Rightarrow> 'w state" where
  "setReject reason st = st\<lparr>rejectCalls := rejectCalls st @ [reason]\<rparr>"

text \<open>
  What the worker throws: the string thrown by \<open>validateCustomHeader\<close>, the
  \<open>TypeError\<close> of calling \<open>trim\<close> on \<open>undefined\<close> or of reading the \<open>message\<close> of
  \<open>null\<close> or \<open>undefined\<close>, and \<open>RecoverableForwardError\<close>, which carries the
  messages of the errors it was built from.
\<close>

datatype exn =
    InvalidCustomHeader string
  | TypeError
  | RecoverableForwardError "string list"

definition isSuccessfulCall :: "forwardCall \<Rightarrow> bool" where
  "isSuccessfulCall c = (snd (snd c) = Resolved)"

definition isNullishCall :: "forwardCall \<Rightarrow> bool" where
  "isNullishCall c = (snd (snd c) = RejectedNullish)"

text \<open>The messages of the calls on record that rejected with an error.\<close>

fun failureMessages :: "forwardCall list \<Rightarrow> string list" where
  "failureMessages [] = []"
| "failureMessages ((a, h, Resolved) # cs) = failureMessages cs"
| "failureMessages ((a, h, Rejected m) # cs) = m # failureMessages cs"
| "failureMessages ((a, h, RejectedNullish) # cs) = failureMessages cs"

definition anySuccessfulForward :: "'w state \<Rightarrow> bool" where
  "anySuccessfulForward st = list_ex isSuccessfulCall (forwardCalls st)"

section \<open>DEFAULTS.forwardToPrimaryDestination\<close>

text \<open>
  Logging through \<open>consoleOutput\<close> only writes to the console and is left out of the
  model, here and below.
\<close>

record errorMessageRecord =
  primaryDestinationId :: nat
  backupDestinationId :: nat
  backupDestination :: string
  errorMessage :: string

record PrimaryDestinationResult =
  wasSuccessful :: bool
  hadRecoverableError :: bool
  successfulDestination :: "string option"
  errorMessages :: "errorMessageRecord list"
  errors :: "string list"

text \<open>
  The \<open>for ... of\<close> loop over the backups that are left, with the loop variables
  \<open>s\<close>, \<open>hadRecoverableError\<close>, \<open>errorMessages\<close> and \<open>errors\<close>. It returns
  \<open>wasSuccessful\<close> and the loop variables. The \<open>try\<close> is the call of the transport, the
  \<open>catch\<close> is its two rejecting branches. The first thing the \<open>catch\<close> block does is to
  read \<open>error.message\<close>: when the transport rejected with \<open>null\<close> or \<open>undefined\<close> this
  read throws a \<open>TypeError\<close>, which nothing catches, before anything is recorded.
\<close>

fun forwardLoop ::
  "'w message \<Rightarrow> (string \<Rightarrow> bool) \<Rightarrow> nat \<Rightarrow> headers \<Rightarrow> string list \<Rightarrow>
   nat \<Rightarrow> bool \<Rightarrow> errorMessageRecord list \<Rightarrow> string list \<Rightarrow> 'w state \<Rightarrow>
   (exn + bool \<times> nat \<times> bool \<times> errorMessageRecord list \<times> string list) \<times> 'w state" where
  "forwardLoop message recoverableRegExp pid customHeaders [] s had ems errs st =
     (Inr (False, s, had, ems, errs), st)"
| "forwardLoop message recoverableRegExp pid customHeaders (backup # rest) s had ems errs st =
     (case callForward message backup customHeaders st of
        (Resolved, st') \<Rightarrow> (Inr (True, s, had, ems, errs), st')
      | (Rejected msg, st') \<Rightarrow>
          forwardLoop message recoverableRegExp pid customHeaders rest (s + 1)
            (if recoverableRegExp msg then True else had)
            (ems @ [\<lparr>primaryDestinationId = pid, backupDestinationId = s + 1,
                     backupDestination = backup, errorMessage = msg\<rparr>])
            (errs @ [msg]) st'
      | (RejectedNullish, st') \<Rightarrow> (Inl TypeError, st'))"

definition forwardToPrimaryDestination ::
  "'w message \<Rightarrow> string list \<Rightarrow> nat \<Rightarrow> headers \<Rightarrow> (string \<Rightarrow> bool) \<Rightarrow> 'w state \<Rightarrow>
   (exn + PrimaryDestinationResult) \<times> 'w state" where
  "forwardToPrimaryDestination message primaryDestination pid customHeaders recoverableRegExp st =
     (case forwardLoop message recoverableRegExp pid customHeaders primaryDestination
             0 False [] [] st of
        (Inl e, st') \<Rightarrow> (Inl e, st')
      | (Inr (ok, s, had, ems, errs), st') \<Rightarrow>
          (Inr \<lparr>wasSuccessful = ok, hadRecoverableError = had,
                successfulDestination = (if ok then at primaryDestination s else None),
                errorMessages = ems, errors = errs\<rparr>, st'))"

section \<open>DEFAULTS.forwardToCompoundDestination\<close>

text \<open>
  \<open>Promise.all\<close> over the primary destinations. The primaries are started together
  and the calls of different primaries interleave as the transport settles them; the
  model fixes one order and runs the primaries one after the other, in the order of the
  list. The calls of one primary are made in the order of its backups in either case,
  and the statements below are about the calls of one primary or about all the calls
  on record, not about the order of the calls of different primaries. Each primary
  settles, as a rejection (\<open>Inl\<close>) or a result (\<open>Inr\<close>); \<open>promiseAll\<close> rejects with
  the first rejection if there is one. The primaries that have not settled at that
  moment go on; their calls are on record in the model.
\<close>

fun settledPrimaryDestinations ::
  "'w message \<Rightarrow> (string \<Rightarrow> bool) \<Rightarrow> headers \<Rightarrow> nat \<Rightarrow> string list list \<Rightarrow> 'w state \<Rightarrow>
   (exn + PrimaryDestinationResult) list \<times> 'w state" where
  "settledPrimaryDestinations message recoverableRegExp customHeaders i [] st = ([], st)"
| "settledPrimaryDestinations message recoverableRegExp customHeaders i (pd # pds) st =
     (case forwardToPrimaryDestination message pd (i + 1) customHeaders recoverableRegExp st of
        (r, st1) \<Rightarrow>
          (case settledPrimaryDestinations message recoverableRegExp customHeaders (Suc i) pds st1 of
             (rs, st2) \<Rightarrow> (r # rs, st2)))"

fun promiseAll :: "('e + 'a) list \<Rightarrow> 'e + 'a list" where
  "promiseAll [] = Inr []"
| "promiseAll (Inl e # rs) = Inl e"
| "promiseAll (Inr x # rs) = (case promiseAll rs of Inl e \<Rightarrow> Inl e | Inr xs \<Rightarrow> Inr (x # xs))"

definition compoundHadRecoverableError :: "PrimaryDestinationResult list \<Rightarrow> bool" where
  "compoundHadRecoverableError primaryDestinationResults =
     list_ex (\<lambda>b. b)
       (map (\<lambda>result. \<not> wasSuccessful result \<and> hadRecoverableError result)
          primaryDestinationResults)"

definition compoundWasSuccessful :: "PrimaryDestinationResult list \<Rightarrow> bool" where
  "compoundWasSuccessful primaryDestinationResults =
     (\<not> compoundHadRecoverableError primaryDestinationResults
      \<and> list_ex (\<lambda>b. b) (map (\<lambda>result. wasSuccessful result) primaryDestinationResults))"

definition forwardToCompoundDestination ::
  "'w message \<Rightarrow> string list list \<Rightarrow> headers \<Rightarrow> (string \<Rightarrow> bool) \<Rightarrow> 'w state \<Rightarrow>
   (exn + bool) \<times> 'w state" where
  "forwardToCompoundDestination message compoundDestination customHeaders recoverableRegExp st =
     (case settledPrimaryDestinations message recoverableRegExp customHeaders 0
             compoundDestination st of
        (settled, st') \<Rightarrow>
          (case promiseAll settled of
             Inl e \<Rightarrow> (Inl e, st')
           | Inr primaryDestinationResults \<Rightarrow>
               if compoundHadRecoverableError primaryDestinationResults
               then (Inl (RecoverableForwardError
                            (concat (map errors primaryDestinationResults))), st')
               else (Inr (compoundWasSuccessful primaryDestinationResults), st')))"

section \<open>DEFAULTS.addressLocalParts\<close>

definition addressLocalParts :: "string \<Rightarrow> string \<Rightarrow> string \<times> string" where
  "addressLocalParts localPart formatLocalPartSeparator =
     (let lowerCaseLocalPart = toLowerCase localPart;
          firstLocalPartSeparatorIndex = indexOf lowerCaseLocalPart formatLocalPartSeparator
      in if firstLocalPartSeparatorIndex \<ge> 0
         then (slice lowerCaseLocalPart 0 (nat firstLocalPartSeparatorIndex),
               sliceFrom lowerCaseLocalPart
                 (nat (firstLocalPartSeparatorIndex + int (length formatLocalPartSeparator))))
         else (lowerCaseLocalPart, []))"

section \<open>The environment\<close>

text \<open>
  The configuration after \<open>{ ...DEFAULTS, ...environment }\<close>. The three regular
  expressions are held compiled, as the predicates that their \<open>test\<close> method computes;
  \<open>MAP\<close> is the key-value store, where \<open>get\<close> of a key that is not stored answers
  \<open>null\<close> (\<open>None\<close>). The \<open>Headers\<close> objects are built from header names and values that
  the platform accepts.
\<close>

record environment =
  USE_STORED_ADDRESS_CONFIGURATION :: string
  USE_STORED_USER_CONFIGURATION :: string
  DESTINATION :: string
  REJECT_TREATMENT :: string
  SUBADDRESSES :: string
  USERS :: string
  recoverableForwardImplementationErrorRegExp :: "string \<Rightarrow> bool"
  FORMAT_PRIMARY_ADDRESS_SEPARATOR :: string
  FORMAT_BACKUP_ADDRESS_SEPARATOR :: string
  FORMAT_LOCAL_PART_SEPARATOR :: string
  FORMAT_REJECT_SEPARATOR :: string
  formatValidCustomHeaderRegExp :: "string \<Rightarrow> bool"
  formatValidEmailAddressRegExp :: "string \<Rightarrow> bool"
  CUSTOM_HEADER :: string
  CUSTOM_HEADER_FAIL :: string
  CUSTOM_HEADER_PASS :: string
  MAP :: "string \<rightharpoonup> string"

text \<open>\<open>DEFAULTS.REJECT_TREATMENT\<close>\<close>

definition DEFAULTS_REJECT_TREATMENT :: string where
  "DEFAULTS_REJECT_TREATMENT = ''Address does not exist''"

definition isValidEmailAddress :: "string \<Rightarrow> (string \<Rightarrow> bool) \<Rightarrow> bool" where
  "isValidEmailAddress address validAddressRegExp = validAddressRegExp address"

section \<open>The email handler: configuration\<close>

definition booleanFromString :: "string \<Rightarrow> bool" where
  "booleanFromString stringBoolean = (toLowerCase (trim stringBoolean) \<in> set [''true'', ''1''])"

definition storedConfigurationValue :: "environment \<Rightarrow> bool \<Rightarrow> string \<Rightarrow> string option" where
  "storedConfigurationValue env shouldLoad key = (if shouldLoad then MAP env key else None)"

definition useStoredAddressConfiguration :: "environment \<Rightarrow> bool" where
  "useStoredAddressConfiguration env = booleanFromString (USE_STORED_ADDRESS_CONFIGURATION env)"

definition useStoredUserConfiguration :: "environment \<Rightarrow> bool" where
  "useStoredUserConfiguration env = booleanFromString (USE_STORED_USER_CONFIGURATION env)"

definition globalDestination :: "environment \<Rightarrow> string" where
  "globalDestination env =
     trim (case storedConfigurationValue env (useStoredAddressConfiguration env) ''@DESTINATION'' of
             Some v \<Rightarrow> v | None \<Rightarrow> DESTINATION env)"

definition globalRejectTreatment :: "environment \<Rightarrow> string" where
  "globalRejectTreatment env =
     trim (case storedConfigurationValue env (useStoredAddressConfiguration env)
                  ''@REJECT_TREATMENT'' of
             Some v \<Rightarrow> v | None \<Rightarrow> REJECT_TREATMENT env)"

definition globalSubaddresses :: "environment \<Rightarrow> string" where
  "globalSubaddresses env =
     toLowerCase (trim
       (case storedConfigurationValue env (useStoredAddressConfiguration env) ''@SUBADDRESSES'' of
          Some v \<Rightarrow> v | None \<Rightarrow> SUBADDRESSES env))"

definition globalUsers :: "environment \<Rightarrow> string" where
  "globalUsers env =
     toLowerCase (trim
       (case storedConfigurationValue env (useStoredAddressConfiguration env) ''@USERS'' of
          Some v \<Rightarrow> v | None \<Rightarrow> USERS env))"

definition validateCustomHeader :: "environment \<Rightarrow> string \<Rightarrow> exn + string" where
  "validateCustomHeader env customHeader =
     (let customHeaderTrimmed = trim customHeader
      in if formatValidCustomHeaderRegExp env customHeaderTrimmed
         then Inr customHeaderTrimmed
         else Inl (InvalidCustomHeader customHeaderTrimmed))"

text \<open>
  \<open>message.to.split('@')[0]\<close>: a split on a non-empty separator has a first piece
  (lemma \<open>split_not_Nil\<close> below), so the last case is never taken.
\<close>

definition messageLocalPart :: "'w message \<Rightarrow> string" where
  "messageLocalPart message = (case at (split (to message) ''@'') 0 of Some p \<Rightarrow> p | None \<Rightarrow> [])"

definition messageUser :: "environment \<Rightarrow> 'w message \<Rightarrow> string" where
  "messageUser env message =
     fst (addressLocalParts (messageLocalPart message) (FORMAT_LOCAL_PART_SEPARATOR env))"

definition messageSubaddress :: "environment \<Rightarrow> 'w message \<Rightarrow> string" where
  "messageSubaddress env message =
     snd (addressLocalParts (messageLocalPart message) (FORMAT_LOCAL_PART_SEPARATOR env))"

definition userDestinationWithRejectTreatment :: "environment \<Rightarrow> 'w message \<Rightarrow> string option" where
  "userDestinationWithRejectTreatment env message =
     storedConfigurationValue env (useStoredUserConfiguration env) (messageUser env message)"

definition userSubaddresses :: "environment \<Rightarrow> 'w message \<Rightarrow> string" where
  "userSubaddresses env message =
     (case storedConfigurationValue env (useStoredUserConfiguration env)
             (messageUser env message @ FORMAT_LOCAL_PART_SEPARATOR env) of
        Some v \<Rightarrow> toLowerCase (trim v)
      | None \<Rightarrow> globalSubaddresses env)"

definition userRequiresSubaddress :: "environment \<Rightarrow> 'w message \<Rightarrow> bool" where
  "userRequiresSubaddress env message =
     startsWith (userSubaddresses env message) (FORMAT_LOCAL_PART_SEPARATOR env)"

text \<open>
  \<open>s.replace(startsWithLocalPartSeparatorRegExp, '')\<close>: the pattern is the escaped
  separator anchored at the start and is not global, so one leading separator is removed.
\<close>

definition removeLeadingLocalPartSeparator :: "environment \<Rightarrow> string \<Rightarrow> string" where
  "removeLeadingLocalPartSeparator env s =
     (if startsWith s (FORMAT_LOCAL_PART_SEPARATOR env)
      then drop (length (FORMAT_LOCAL_PART_SEPARATOR env)) s else s)"

definition userConcreteSubaddresses :: "environment \<Rightarrow> 'w message \<Rightarrow> string" where
  "userConcreteSubaddresses env message =
     trim (removeLeadingLocalPartSeparator env (userSubaddresses env message))"

text \<open>
  \<open>x?.split(sep).at(0).trim() || globalDestination\<close>: \<open>undefined\<close> and the empty string
  give way to the global value; \<open>at(0)\<close> of an empty array is \<open>undefined\<close>, whose \<open>trim\<close>
  is a \<open>TypeError\<close>.
\<close>

definition userDestination :: "environment \<Rightarrow> 'w message \<Rightarrow> exn + string" where
  "userDestination env message =
     (case userDestinationWithRejectTreatment env message of
        None \<Rightarrow> Inr (globalDestination env)
      | Some v \<Rightarrow>
          (case at (split v (FORMAT_REJECT_SEPARATOR env)) 0 of
             None \<Rightarrow> Inl TypeError
           | Some d \<Rightarrow> Inr (if trim d = [] then globalDestination env else trim d)))"

definition userRejectTreatment :: "environment \<Rightarrow> 'w message \<Rightarrow> string" where
  "userRejectTreatment env message =
     (case userDestinationWithRejectTreatment env message of
        None \<Rightarrow> globalRejectTreatment env
      | Some v \<Rightarrow>
          (case at (split v (FORMAT_REJECT_SEPARATOR env)) 1 of
             None \<Rightarrow> globalRejectTreatment env
           | Some r \<Rightarrow> if trim r = [] then globalRejectTreatment env else trim r))"

definition messageUserIsAllowed :: "environment \<Rightarrow> 'w message \<Rightarrow> bool" where
  "messageUserIsAllowed env message =
     (userDestinationWithRejectTreatment env message \<noteq> None
      \<or> globalUsers env = ''*''
      \<or> messageUser env message
          \<in> set (map trim (split (globalUsers env) (FORMAT_PRIMARY_ADDRESS_SEPARATOR env))))"

definition messageSubaddressIsAllowed :: "environment \<Rightarrow> 'w message \<Rightarrow> bool" where
  "messageSubaddressIsAllowed env message =
     (if messageSubaddress env message = []
      then \<not> userRequiresSubaddress env message
      else userConcreteSubaddresses env message = ''*''
           \<or> messageSubaddress env message
               \<in> set (map trim (split (userConcreteSubaddresses env message)
                                   (FORMAT_PRIMARY_ADDRESS_SEPARATOR env))))"

section \<open>The email handler: destinations\<close>

record validatedPrimaryDestination =
  validBackup :: "string list"
  invalidBackup :: "string list"

record validatedCompoundDestination = validatedPrimaryDestination +
  validPrimary :: "string list list"
  duplicateBackup :: "string list"

definition validateBackup ::
  "environment \<Rightarrow> string \<Rightarrow> validatedPrimaryDestination \<Rightarrow> string \<Rightarrow> validatedPrimaryDestination" where
  "validateBackup env user newPrimaryDestination basicDestination =
     (let backupDestination =
            prepend (trim basicDestination)
              [(StringTest (FORMAT_LOCAL_PART_SEPARATOR env), user), (StringTest ''@'', user)]
      in if isValidEmailAddress backupDestination (formatValidEmailAddressRegExp env)
         then newPrimaryDestination
                \<lparr>validBackup := validBackup newPrimaryDestination @ [backupDestination]\<rparr>
         else if backupDestination \<noteq> []
         then newPrimaryDestination
                \<lparr>invalidBackup := invalidBackup newPrimaryDestination @ [backupDestination]\<rparr>
         else newPrimaryDestination)"

definition validatePrimaryDestination ::
  "environment \<Rightarrow> string \<Rightarrow> string \<Rightarrow> validatedPrimaryDestination" where
  "validatePrimaryDestination env user primaryDestinationText =
     foldl (validateBackup env user) \<lparr>validBackup = [], invalidBackup = []\<rparr>
       (split primaryDestinationText (FORMAT_BACKUP_ADDRESS_SEPARATOR env))"

text \<open>
  The inner reducer of \<open>validateCompoundDestination\<close>. It pushes onto the accumulator
  of the outer reducer as well as onto its own, so it works on the pair of them.
\<close>

definition dedupBackup ::
  "validatedCompoundDestination \<times> string list \<Rightarrow> string \<Rightarrow>
   validatedCompoundDestination \<times> string list" where
  "dedupBackup acc destination =
     (case acc of (newCompoundDestination, newPrimaryDestination) \<Rightarrow>
        if destination \<notin> set (validBackup newCompoundDestination)
        then (newCompoundDestination
                \<lparr>validBackup := validBackup newCompoundDestination @ [destination]\<rparr>,
              newPrimaryDestination @ [destination])
        else (newCompoundDestination
                \<lparr>duplicateBackup := duplicateBackup newCompoundDestination @ [destination]\<rparr>,
              newPrimaryDestination))"

text \<open>
  The outer reducer. Its last statement is
  \<open>newCompoundDestination.invalidBackup.concat(nonDedupedprimaryDestination.invalidBackup)\<close>:
  \<open>concat\<close> builds a new array and leaves the one it is called on as it is, and the new
  array is not used, so the accumulator is returned with its \<open>invalidBackup\<close> untouched.
\<close>

definition validatePrimary ::
  "environment \<Rightarrow> string \<Rightarrow> validatedCompoundDestination \<Rightarrow> string \<Rightarrow>
   validatedCompoundDestination" where
  "validatePrimary env user newCompoundDestination primaryDestinationText =
     (let nonDedupedprimaryDestination =
            validatePrimaryDestination env user primaryDestinationText
      in case foldl dedupBackup (newCompoundDestination, [])
                (validBackup nonDedupedprimaryDestination) of
           (pushed, dedupedPrimaryDestination) \<Rightarrow>
             (let kept = (if length dedupedPrimaryDestination > 0
                          then pushed\<lparr>validPrimary :=
                                         validPrimary pushed @ [dedupedPrimaryDestination]\<rparr>
                          else pushed);
                  unused = invalidBackup kept @ invalidBackup nonDedupedprimaryDestination
              in kept))"

definition validateCompoundDestination ::
  "environment \<Rightarrow> string \<Rightarrow> string \<Rightarrow> validatedCompoundDestination" where
  "validateCompoundDestination env user compoundDestinationText =
     foldl (validatePrimary env user)
       \<lparr>validBackup = [], invalidBackup = [], validPrimary = [], duplicateBackup = []\<rparr>
       (split compoundDestinationText (FORMAT_PRIMARY_ADDRESS_SEPARATOR env))"

section \<open>The email handler: disposition\<close>

text \<open>
  \<open>!a.includes('@') && a || ...\<close>: a candidate is passed over when it contains \<open>@\<close>
  (the left operand of \<open>&&\<close> is \<open>false\<close>) and when it is the empty string (which is
  falsy, so \<open>||\<close> goes on to its right operand).
\<close>

definition userRejectReason :: "environment \<Rightarrow> 'w message \<Rightarrow> string" where
  "userRejectReason env message =
     (if \<not> includes_str (userRejectTreatment env message) ''@''
         \<and> userRejectTreatment env message \<noteq> []
      then userRejectTreatment env message
      else if \<not> includes_str (globalRejectTreatment env) ''@''
         \<and> globalRejectTreatment env \<noteq> []
      then globalRejectTreatment env
      else if \<not> includes_str (REJECT_TREATMENT env) ''@''
         \<and> trim (REJECT_TREATMENT env) \<noteq> []
      then trim (REJECT_TREATMENT env)
      else trim DEFAULTS_REJECT_TREATMENT)"

definition fullRejectReason :: "environment \<Rightarrow> 'w message \<Rightarrow> string" where
  "fullRejectReason env message =
     prepend (userRejectReason env message)
       [(RegExpTest startsWithNonAlphanumericRegExp, messageLocalPart message)]"

text \<open>The accept forward, attempted when the user and the subaddress are allowed.\<close>

definition acceptForward ::
  "environment \<Rightarrow> 'w message \<Rightarrow> string \<Rightarrow> string \<Rightarrow> 'w state \<Rightarrow> (exn + bool) \<times> 'w state" where
  "acceptForward env message customHeader destination st =
     (if messageUserIsAllowed env message \<and> messageSubaddressIsAllowed env message
      then forwardToCompoundDestination message
             (validPrimary (validateCompoundDestination env (messageUser env message) destination))
             (customHeader, trim (CUSTOM_HEADER_PASS env))
             (recoverableForwardImplementationErrorRegExp env) st
      else (Inr False, st))"

text \<open>The reject forward, attempted when there is a valid reject forward destination.\<close>

definition rejectForward ::
  "environment \<Rightarrow> 'w message \<Rightarrow> string \<Rightarrow> 'w state \<Rightarrow> (exn + bool) \<times> 'w state" where
  "rejectForward env message customHeader st =
     (let rejectCompoundDestination =
            validateCompoundDestination env (messageUser env message)
              (userRejectTreatment env message)
      in if length (validPrimary rejectCompoundDestination) > 0
         then forwardToCompoundDestination message
                (validPrimary rejectCompoundDestination)
                (customHeader, trim (CUSTOM_HEADER_FAIL env))
                (recoverableForwardImplementationErrorRegExp env) st
         else (Inr False, st))"

definition email :: "environment \<Rightarrow> 'w message \<Rightarrow> 'w state \<Rightarrow> (exn + unit) \<times> 'w state" where
  "email env message st =
     (case validateCustomHeader env (CUSTOM_HEADER env) of
        Inl e \<Rightarrow> (Inl e, st)
      | Inr customHeader \<Rightarrow>
     (case userDestination env message of
        Inl e \<Rightarrow> (Inl e, st)
      | Inr destination \<Rightarrow>
     (case acceptForward env message customHeader destination st of
        (Inl e, st1) \<Rightarrow> (Inl e, st1)
      | (Inr acceptForwardWasSuccessful, st1) \<Rightarrow>
          if acceptForwardWasSuccessful then (Inr (), st1)
          else
     (case rejectForward env message customHeader st1 of
        (Inl e, st2) \<Rightarrow> (Inl e, st2)
      | (Inr rejectForwardWasSuccessful, st2) \<Rightarrow>
          if rejectForwardWasSuccessful then (Inr (), st2)
          else (Inr (), setReject (fullRejectReason env message) st2)))))"

section \<open>Notions used in the statements\<close>

text \<open>The separator occurs in \<open>s\<close> at position \<open>j\<close>.\<close>

definition occursAt :: "string \<Rightarrow> string \<Rightarrow> nat \<Rightarrow> bool" where
  "occursAt s t j = (j \<le> length s \<and> startsWith (drop j s) t)"

text \<open>
  Two strings are case variants of each other when they have the same length and agree
  at every position up to the case of the letter.
\<close>

definition caseVariant :: "string \<Rightarrow> string \<Rightarrow> bool" where
  "caseVariant s t = list_all2 (\<lambda>c d. toLowerChar c = toLowerChar d) s t"

text \<open>
  The valid candidates of a compound destination text, primary by primary: the pieces of
  each primary after trimming and expansion of the shorthands that the pattern of valid
  addresses accepts, in the order in which they are written.
\<close>

definition validCandidates :: "environment \<Rightarrow> string \<Rightarrow> string \<Rightarrow> string list list" where
  "validCandidates env user compoundDestinationText =
     map (\<lambda>primaryDestinationText.
            validBackup (validatePrimaryDestination env user primaryDestinationText))
       (split compoundDestinationText (FORMAT_PRIMARY_ADDRESS_SEPARATOR env))"

text \<open>A list with every element kept at its first occurrence and removed everywhere else.\<close>

fun keepFirst :: "'a list \<Rightarrow> 'a list" where
  "keepFirst [] = []"
| "keepFirst (x # xs) = x # keepFirst (removeAll x xs)"

text \<open>
  The elements of a list that are new with respect to the ones seen so far, and the ones
  that are not; the new elements of a list of lists, list by list.
\<close>

fun newOnes :: "'a list \<Rightarrow> 'a list \<Rightarrow> 'a list" where
  "newOnes seen [] = []"
| "newOnes seen (x # xs) =
     (if x \<in> set seen then newOnes seen xs else x # newOnes (seen @ [x]) xs)"

fun repeatedOnes :: "'a list \<Rightarrow> 'a list \<Rightarrow> 'a list" where
  "repeatedOnes seen [] = []"
| "repeatedOnes seen (x # xs) =
     (if x \<in> set seen then x # repeatedOnes seen xs else repeatedOnes (seen @ [x]) xs)"

fun newOnesOfEach :: "'a list \<Rightarrow> 'a list list \<Rightarrow> 'a list list" where
  "newOnesOfEach seen [] = []"
| "newOnesOfEach seen (c # cs) = newOnes seen c # newOnesOfEach (seen @ newOnes seen c) cs"

fun repeatedOnesOfEach :: "'a list \<Rightarrow> 'a list list \<Rightarrow> 'a list" where
  "repeatedOnesOfEach seen [] = []"
| "repeatedOnesOfEach seen (c # cs) =
     repeatedOnes seen c @ repeatedOnesOfEach (seen @ newOnes seen c) cs"

text \<open>
  An environment for the examples: \<open>DEFAULTS\<close> with the stored address configuration
  switched on, \<open>REJECT_TREATMENT\<close> set to \<open>default reject reason\<close>, the recoverable
  errors those whose message starts with \<open>could not send email\<close> (the pattern of the test
  suite), and the valid addresses those of the pattern \<open>^[^@ ]+@[^@ ]+$\<close>. The default
  pattern of custom headers, \<open>X-.*\<close>, is not anchored: it accepts the strings that
  contain \<open>X-\<close>.
\<close>

definition exampleValidEmailAddressRegExp :: "string \<Rightarrow> bool" where
  "exampleValidEmailAddressRegExp s =
     (case split s ''@'' of
        [l, d] \<Rightarrow> l \<noteq> [] \<and> d \<noteq> [] \<and> CHR '' '' \<notin> set s
      | _ \<Rightarrow> False)"

definition exampleEnvironment :: environment where
  "exampleEnvironment =
     \<lparr>USE_STORED_ADDRESS_CONFIGURATION = ''true'',
      USE_STORED_USER_CONFIGURATION = ''true'',
      DESTINATION = [],
      REJECT_TREATMENT = ''default reject reason'',
      SUBADDRESSES = ''*'',
      USERS = [],
      recoverableForwardImplementationErrorRegExp = (\<lambda>m. startsWith m ''could not send email''),
      FORMAT_PRIMARY_ADDRESS_SEPARATOR = '','',
      FORMAT_BACKUP_ADDRESS_SEPARATOR = '':'',
      FORMAT_LOCAL_PART_SEPARATOR = ''+'',
      FORMAT_REJECT_SEPARATOR = '';'',
      formatValidCustomHeaderRegExp = (\<lambda>s. includes_str s ''X-''),
      formatValidEmailAddressRegExp = exampleValidEmailAddressRegExp,
      CUSTOM_HEADER = ''X-My-Email-Forwarding'',
      CUSTOM_HEADER_FAIL = ''fail'',
      CUSTOM_HEADER_PASS = ''pass'',
      MAP = Map.empty\<rparr>"

text \<open>
  A transport for the examples: it rejects the addresses listed in \<open>failures\<close>, each
  with its message, and resolves for every other address; its state counts the calls.
\<close>

definition failingForward ::
  "(string \<times> string) list \<Rightarrow> string \<Rightarrow> headers \<Rightarrow> nat \<Rightarrow> outcome \<times> nat" where
  "failingForward failures address customHeaders n =
     (case map_of failures address of
        Some msg \<Rightarrow> (Rejected msg, Suc n)
      | None \<Rightarrow> (Resolved, Suc n))"

definition exampleMessage :: "string \<Rightarrow> (string \<times> string) list \<Rightarrow> nat message" where
  "exampleMessage recipient failures = \<lparr>to = recipient, forward = failingForward failures\<rparr>"

text \<open>
  A transport that rejects with \<open>undefined\<close> for the addresses listed and resolves for
  every other address, and an environment whose destination is one primary with two
  backups.
\<close>

definition nullishForward :: "string list \<Rightarrow> string \<Rightarrow> headers \<Rightarrow> nat \<Rightarrow> outcome \<times> nat" where
  "nullishForward addresses address customHeaders n =
     (if address \<in> set addresses then (RejectedNullish, Suc n) else (Resolved, Suc n))"

definition nullishMessage :: "string \<Rightarrow> string list \<Rightarrow> nat message" where
  "nullishMessage recipient addresses = \<lparr>to = recipient, forward = nullishForward addresses\<rparr>"

definition failoverEnvironment :: environment where
  "failoverEnvironment =
     exampleEnvironment\<lparr>USERS := ''user1'', DESTINATION := ''a@x.com:b@x.com''\<rparr>"

text \<open>
  Environments for the examples of the reject reason and of the allow lists: the store
  holds an empty \<open>@REJECT_TREATMENT\<close>; the reject treatment is \<open>: spam\<close>; the store
  holds the key \<open>user1\<close> with an empty value; the allowed subaddresses are
  \<open>+suba, subb\<close>, where the leading separator makes a subaddress mandatory.
\<close>

definition emptyStoredRejectTreatmentEnvironment :: environment where
  "emptyStoredRejectTreatmentEnvironment =
     exampleEnvironment\<lparr>MAP := [''@REJECT_TREATMENT'' \<mapsto> []]\<rparr>"

definition spamRejectTreatmentEnvironment :: environment where
  "spamRejectTreatmentEnvironment = exampleEnvironment\<lparr>REJECT_TREATMENT := '': spam''\<rparr>"

definition storedUserEnvironment :: environment where
  "storedUserEnvironment = exampleEnvironment\<lparr>MAP := [''user1'' \<mapsto> []]\<rparr>"

definition mandatorySubaddressEnvironment :: environment where
  "mandatorySubaddressEnvironment =
     exampleEnvironment\<lparr>USERS := ''user1'', SUBADDRESSES := ''+suba, subb''\<rparr>"

text \<open>
  Two more environments for the allowed users: the store holds the key \<open>user1\<close> but
  the stored user configuration is switched off; the store holds \<open>@USERS\<close>, which
  takes precedence over the \<open>USERS\<close> of the environment.
\<close>

definition disabledStoredUserEnvironment :: environment where
  "disabledStoredUserEnvironment =
     storedUserEnvironment\<lparr>USE_STORED_USER_CONFIGURATION := ''false''\<rparr>"

definition storedGlobalUsersEnvironment :: environment where
  "storedGlobalUsersEnvironment =
     exampleEnvironment\<lparr>USERS := ''user9'', MAP := [''@USERS'' \<mapsto> '' User1 , user2 '']\<rparr>"

section \<open>The local part of an address\<close>

lemma splitNonEmpty_not_Nil: "splitNonEmpty sep cur s \<noteq> []"
  by (induction sep cur s rule: splitNonEmpty.induct) auto

lemma split_not_Nil: "sep \<noteq> [] \<Longrightarrow> split s sep \<noteq> []"
  by (simp add: split_def splitNonEmpty_not_Nil)

lemma toLowerCase_caseVariant: "caseVariant s t \<Longrightarrow> toLowerCase s = toLowerCase t"
  unfolding caseVariant_def toLowerCase_def
  by (induction s t rule: list_all2_induct) auto

lemma indexOfFrom_found:
  "0 \<le> indexOfFrom i s t \<Longrightarrow>
   \<exists>j\<le>length s. indexOfFrom i s t = int (i + j) \<and> startsWith (drop j s) t
     \<and> (\<forall>k<j. \<not> startsWith (drop k s) t)"
proof (induction i s t rule: indexOfFrom.induct)
  case (1 i t)
  then show ?case by (auto simp: startsWith_def split: if_splits)
next
  case (2 i c cs t)
  show ?case
  proof (cases "startsWith (c # cs) t")
    case True
    then show ?thesis by (auto intro!: exI[of _ 0])
  next
    case False
    with 2 obtain j where j: "j \<le> length cs" "indexOfFrom (Suc i) cs t = int (Suc i + j)"
      "startsWith (drop j cs) t" "\<forall>k<j. \<not> startsWith (drop k cs) t"
      by auto
    have "\<forall>k<Suc j. \<not> startsWith (drop k (c # cs)) t"
      using j(4) False by (auto simp: less_Suc_eq_0_disj)
    with j False show ?thesis
      by (intro exI[of _ "Suc j"]) auto
  qed
qed

lemma indexOfFrom_absent:
  "indexOfFrom i s t < 0 \<Longrightarrow> k \<le> length s \<Longrightarrow> \<not> startsWith (drop k s) t"
proof (induction i s t arbitrary: k rule: indexOfFrom.induct)
  case (1 i t)
  then show ?case by (auto simp: startsWith_def split: if_splits)
next
  case (2 i c cs t)
  then show ?case by (cases k) (auto split: if_splits)
qed

text \<open>
  Claim C9. \<open>addressLocalParts\<close> lower-cases the local part and splits it at the first
  occurrence of the separator only: when the separator does not occur in the lower-cased
  local part, the result is the lower-cased local part and the empty subaddress;
  when it occurs, the lower-cased local part is the user, the separator and the
  subaddress put together, and the separator occurs at no position before the end of the
  user. Case variants of a local part have the same result.
\<close>

theorem addressLocalParts_first_separator:
  "((\<forall>j. \<not> occursAt (toLowerCase s) sep j) \<longrightarrow>
      addressLocalParts s sep = (toLowerCase s, [])) \<and>
   ((\<exists>j. occursAt (toLowerCase s) sep j) \<longrightarrow>
      (\<exists>user subaddress. addressLocalParts s sep = (user, subaddress)
         \<and> toLowerCase s = user @ sep @ subaddress
         \<and> (\<forall>j<length user. \<not> occursAt (toLowerCase s) sep j))) \<and>
   (caseVariant s t \<longrightarrow> addressLocalParts t sep = addressLocalParts s sep)"
proof (intro conjI impI)
  assume none: "\<forall>j. \<not> occursAt (toLowerCase s) sep j"
  have "indexOf (toLowerCase s) sep < 0"
  proof (rule ccontr)
    assume "\<not> indexOf (toLowerCase s) sep < 0"
    then have "0 \<le> indexOfFrom 0 (toLowerCase s) sep" by (simp add: indexOf_def)
    from indexOfFrom_found[OF this] none show False
      by (auto simp: occursAt_def)
  qed
  then show "addressLocalParts s sep = (toLowerCase s, [])"
    by (simp add: addressLocalParts_def Let_def)
next
  assume "\<exists>j. occursAt (toLowerCase s) sep j"
  then obtain k where k: "k \<le> length (toLowerCase s)" "startsWith (drop k (toLowerCase s)) sep"
    by (auto simp: occursAt_def)
  have "\<not> indexOfFrom 0 (toLowerCase s) sep < 0"
    using indexOfFrom_absent[of 0 "toLowerCase s" sep k] k by blast
  then have pos: "0 \<le> indexOfFrom 0 (toLowerCase s) sep" by simp
  from indexOfFrom_found[OF pos] obtain j where j: "j \<le> length (toLowerCase s)"
    "indexOfFrom 0 (toLowerCase s) sep = int j" "startsWith (drop j (toLowerCase s)) sep"
    "\<forall>k<j. \<not> startsWith (drop k (toLowerCase s)) sep"
    by auto
  let ?l = "toLowerCase s"
  have res: "addressLocalParts s sep = (take j ?l, drop (j + length sep) ?l)"
    using j(2) by (simp add: addressLocalParts_def Let_def indexOf_def slice_def sliceFrom_def nat_add_distrib)
  have "drop j ?l = sep @ drop (length sep) (drop j ?l)"
    using j(3) unfolding startsWith_def by (metis append_take_drop_id)
  then have "?l = take j ?l @ sep @ drop (j + length sep) ?l"
    by (metis append_take_drop_id drop_drop add.commute)
  moreover have "\<forall>i<length (take j ?l). \<not> occursAt ?l sep i"
    using j(4) by (simp add: occursAt_def)
  ultimately show "\<exists>user subaddress. addressLocalParts s sep = (user, subaddress)
         \<and> toLowerCase s = user @ sep @ subaddress
         \<and> (\<forall>j<length user. \<not> occursAt (toLowerCase s) sep j)"
    using res by blast
next
  assume "caseVariant s t"
  then show "addressLocalParts t sep = addressLocalParts s sep"
    by (simp add: addressLocalParts_def toLowerCase_caseVariant)
qed

theorem addressLocalParts_first_separator_witness:
  "caseVariant ''USER1+SUBA+x'' ''user1+suba+X''
   \<and> occursAt (toLowerCase ''USER1+SUBA+x'') ''+'' 5
   \<and> addressLocalParts ''USER1+SUBA+x'' ''+'' = (''user1'', ''suba+x'')
   \<and> addressLocalParts ''user1+suba+X'' ''+'' = (''user1'', ''suba+x'')
   \<and> (\<forall>j. \<not> occursAt (toLowerCase ''User1'') ''+'' j)
   \<and> addressLocalParts ''User1'' ''+'' = (''user1'', [])"
proof -
  have cv: "caseVariant ''USER1+SUBA+x'' ''user1+suba+X''"
    by code_simp
  have oc: "occursAt (toLowerCase ''USER1+SUBA+x'') ''+'' 5"
    by code_simp
  have lc: "toLowerCase ''User1'' = ''user1''"
    by code_simp
  have no: "\<forall>j. \<not> occursAt (toLowerCase ''User1'') ''+'' j"
  proof (intro allI notI)
    fix j assume "occursAt (toLowerCase ''User1'') ''+'' j"
    then have le: "j \<le> 5" and tk: "take 1 (drop j ''user1'') = ''+''"
      by (simp_all add: occursAt_def startsWith_def lc)
    from le have "j \<in> {0, 1, 2, 3, 4, 5}" by auto
    with tk show False by auto
  qed
  have e1: "addressLocalParts ''USER1+SUBA+x'' ''+'' = (''user1'', ''suba+x'')"
    by code_simp
  from addressLocalParts_first_separator[of "''USER1+SUBA+x''" "''+''" "''user1+suba+X''"]
       addressLocalParts_first_separator[of "''User1''" "''+''" "''User1''"] cv oc no e1 lc
  show ?thesis
    by simp
qed

section \<open>Validation of a compound destination\<close>

lemma dedupBackup_step:
  "dedupBackup (nc, p) v =
     (if v \<notin> set (validBackup nc)
      then (nc\<lparr>validBackup := validBackup nc @ [v]\<rparr>, p @ [v])
      else (nc\<lparr>duplicateBackup := duplicateBackup nc @ [v]\<rparr>, p))"
  by (simp add: dedupBackup_def)

lemma foldl_dedupBackup:
  "foldl dedupBackup (nc, p) vs =
     (nc\<lparr>validBackup := validBackup nc @ newOnes (validBackup nc) vs,
         duplicateBackup := duplicateBackup nc @ repeatedOnes (validBackup nc) vs\<rparr>,
      p @ newOnes (validBackup nc) vs)"
proof (induction vs arbitrary: nc p)
  case Nil
  show ?case by simp
next
  case (Cons v vs)
  obtain nc1 p1 where step: "dedupBackup (nc, p) v = (nc1, p1)"
    by (cases "dedupBackup (nc, p) v")
  have "foldl dedupBackup (nc, p) (v # vs) = foldl dedupBackup (nc1, p1) vs"
    by (simp only: foldl_Cons step)
  also note Cons.IH[of nc1 p1]
  finally show ?case
    using step by (auto simp: dedupBackup_step split: if_splits)
qed

lemma validatePrimary_step:
  "validatePrimary env user nc t =
     nc\<lparr>validBackup := validBackup nc
            @ newOnes (validBackup nc) (validBackup (validatePrimaryDestination env user t)),
         duplicateBackup := duplicateBackup nc
            @ repeatedOnes (validBackup nc) (validBackup (validatePrimaryDestination env user t)),
         validPrimary := validPrimary nc
            @ filter (\<lambda>p. p \<noteq> [])
                [newOnes (validBackup nc) (validBackup (validatePrimaryDestination env user t))]\<rparr>"
  by (simp add: validatePrimary_def foldl_dedupBackup Let_def)

lemma foldl_validatePrimary:
  "foldl (validatePrimary env user) nc ts =
     nc\<lparr>validBackup := validBackup nc
            @ concat (newOnesOfEach (validBackup nc)
                 (map (\<lambda>t. validBackup (validatePrimaryDestination env user t)) ts)),
         duplicateBackup := duplicateBackup nc
            @ repeatedOnesOfEach (validBackup nc)
                 (map (\<lambda>t. validBackup (validatePrimaryDestination env user t)) ts),
         validPrimary := validPrimary nc
            @ filter (\<lambda>p. p \<noteq> []) (newOnesOfEach (validBackup nc)
                 (map (\<lambda>t. validBackup (validatePrimaryDestination env user t)) ts))\<rparr>"
proof (induction ts arbitrary: nc)
  case Nil
  show ?case by simp
next
  case (Cons t ts)
  define nc1 where "nc1 = validatePrimary env user nc t"
  have "foldl (validatePrimary env user) nc (t # ts) = foldl (validatePrimary env user) nc1 ts"
    by (simp only: foldl_Cons nc1_def)
  also note Cons.IH[of nc1]
  finally have eq: "foldl (validatePrimary env user) nc (t # ts) =
     nc1\<lparr>validBackup := validBackup nc1
            @ concat (newOnesOfEach (validBackup nc1)
                 (map (\<lambda>t. validBackup (validatePrimaryDestination env user t)) ts)),
         duplicateBackup := duplicateBackup nc1
            @ repeatedOnesOfEach (validBackup nc1)
                 (map (\<lambda>t. validBackup (validatePrimaryDestination env user t)) ts),
         validPrimary := validPrimary nc1
            @ filter (\<lambda>p. p \<noteq> []) (newOnesOfEach (validBackup nc1)
                 (map (\<lambda>t. validBackup (validatePrimaryDestination env user t)) ts))\<rparr>" .
  show ?case
    unfolding eq by (simp add: nc1_def validatePrimary_step)
qed

lemma validateCompoundDestination_eq:
  "validateCompoundDestination env user text =
     \<lparr>validBackup = concat (newOnesOfEach [] (validCandidates env user text)),
      invalidBackup = [],
      validPrimary = filter (\<lambda>p. p \<noteq> []) (newOnesOfEach [] (validCandidates env user text)),
      duplicateBackup = repeatedOnesOfEach [] (validCandidates env user text)\<rparr>"
  by (simp add: validateCompoundDestination_def foldl_validatePrimary validCandidates_def Let_def)

lemma removeAll_filter: "removeAll x (filter P xs) = filter (\<lambda>y. P y \<and> y \<noteq> x) xs"
  by (induction xs) auto

lemma newOnes_keepFirst: "newOnes seen xs = keepFirst (filter (\<lambda>x. x \<notin> set seen) xs)"
proof (induction xs arbitrary: seen)
  case Nil
  show ?case by simp
next
  case (Cons x xs)
  show ?case
    by (auto simp: Cons.IH removeAll_filter intro: arg_cong[where f=keepFirst] filter_cong)
qed

lemma set_keepFirst: "set (keepFirst xs) = set xs"
proof (induction xs rule: keepFirst.induct)
  case 1 show ?case by simp
next
  case (2 x xs) then show ?case by auto
qed

lemma distinct_keepFirst: "distinct (keepFirst xs)"
proof (induction xs rule: keepFirst.induct)
  case 1 show ?case by simp
next
  case (2 x xs) then show ?case by (simp add: set_keepFirst)
qed

lemma set_newOnes: "set (newOnes seen xs) = set xs - set seen"
  by (auto simp: newOnes_keepFirst set_keepFirst)

lemma count_newOnes_repeatedOnes:
  "count_list (newOnes seen xs) X + count_list (repeatedOnes seen xs) X = count_list xs X"
  by (induction xs arbitrary: seen) auto

lemma keepFirst_append:
  "keepFirst (xs @ ys) = keepFirst xs @ keepFirst (filter (\<lambda>y. y \<notin> set xs) ys)"
proof (induction xs arbitrary: ys rule: keepFirst.induct)
  case 1 show ?case by simp
next
  case (2 x xs)
  have "keepFirst (removeAll x xs @ removeAll x ys)
          = keepFirst (removeAll x xs) @ keepFirst (filter (\<lambda>y. y \<notin> set (removeAll x xs)) (removeAll x ys))"
    using 2[of "removeAll x ys"] by simp
  moreover have "filter (\<lambda>y. y \<notin> set (removeAll x xs)) (removeAll x ys) = filter (\<lambda>y. y \<notin> set (x # xs)) ys"
    by (induction ys) auto
  ultimately show ?case by simp
qed

lemma concat_newOnesOfEach:
  "concat (newOnesOfEach seen cs) = keepFirst (filter (\<lambda>x. x \<notin> set seen) (concat cs))"
proof (induction cs arbitrary: seen)
  case Nil show ?case by simp
next
  case (Cons c cs)
  have "filter (\<lambda>y. y \<notin> set (filter (\<lambda>x. x \<notin> set seen) c)) (filter (\<lambda>x. x \<notin> set seen) (concat cs))
        = filter (\<lambda>x. x \<notin> set (seen @ newOnes seen c)) (concat cs)"
    by (auto simp: set_newOnes intro: filter_cong)
  then show ?case
    by (simp add: Cons.IH keepFirst_append newOnes_keepFirst[of seen c])
qed

lemma count_newOnesOfEach:
  "count_list (concat (newOnesOfEach seen cs)) X + count_list (repeatedOnesOfEach seen cs) X
     = count_list (concat cs) X"
proof (induction cs arbitrary: seen)
  case Nil show ?case by simp
next
  case (Cons c cs)
  have "count_list (concat (newOnesOfEach (seen @ newOnes seen c) cs)) X
        + count_list (repeatedOnesOfEach (seen @ newOnes seen c) cs) X = count_list (concat cs) X"
    by (rule Cons.IH)
  with count_newOnes_repeatedOnes[of seen c X] show ?case by simp
qed

lemma newOnesOfEach_nth:
  "newOnesOfEach seen cs =
     map (\<lambda>i. keepFirst (filter (\<lambda>x. x \<notin> set seen \<union> set (concat (take i cs))) (cs ! i)))
       [0..<length cs]"
proof (induction cs arbitrary: seen)
  case Nil show ?case by simp
next
  case (Cons c cs)
  have upt: "[0..<length (c # cs)] = 0 # map Suc [0..<length cs]"
    by (simp add: upt_conv_Cons map_Suc_upt del: upt_Suc)
  have seen: "set (seen @ newOnes seen c) = set seen \<union> set c"
    by (auto simp: set_newOnes)
  have "newOnesOfEach (seen @ newOnes seen c) cs =
        map (\<lambda>i. keepFirst (filter (\<lambda>x. x \<notin> set seen \<union> set c \<union> set (concat (take i cs))) (cs ! i)))
          [0..<length cs]"
    unfolding Cons.IH[of "seen @ newOnes seen c"] seen ..
  then show ?case
    unfolding upt by (simp add: newOnes_keepFirst[of seen c] o_def Un_assoc)
qed

lemma count_distinct: "distinct xs \<Longrightarrow> x \<in> set xs \<Longrightarrow> count_list xs x = 1"
  by (induction xs) auto


lemma concat_filter_not_Nil: "concat (filter (\<lambda>p. p \<noteq> []) xss) = concat xss"
  by (induction xss) auto

text \<open>
  Claim C4. In the output of \<open>validateCompoundDestination\<close>, the addresses of
  \<open>validPrimary\<close>, read primary by primary, are the valid candidates of the text with
  each address kept at its first occurrence only; primary by primary, a primary keeps
  those of its valid candidates that no earlier primary has, each at its first
  occurrence, and is left out when it keeps none. So an address \<open>X\<close> that occurs more
  than once among the valid candidates occurs exactly once in \<open>validPrimary\<close>, and all
  its other occurrences are in \<open>duplicateBackup\<close>.
\<close>

theorem validateCompoundDestination_dedup:
  "concat (validPrimary (validateCompoundDestination env user text))
     = keepFirst (concat (validCandidates env user text))
   \<and> validPrimary (validateCompoundDestination env user text)
     = filter (\<lambda>p. p \<noteq> [])
         (map (\<lambda>i. keepFirst
                 (filter (\<lambda>x. x \<notin> set (concat (take i (validCandidates env user text))))
                    (validCandidates env user text ! i)))
            [0..<length (validCandidates env user text)])
   \<and> [] \<notin> set (validPrimary (validateCompoundDestination env user text))
   \<and> (1 < count_list (concat (validCandidates env user text)) X \<longrightarrow>
        count_list (concat (validPrimary (validateCompoundDestination env user text))) X = 1
        \<and> count_list (duplicateBackup (validateCompoundDestination env user text)) X
            = count_list (concat (validCandidates env user text)) X - 1)"
proof (intro conjI impI)
  let ?cs = "validCandidates env user text"
  let ?out = "validateCompoundDestination env user text"
  show flat: "concat (validPrimary ?out) = keepFirst (concat ?cs)"
    by (simp add: validateCompoundDestination_eq concat_filter_not_Nil concat_newOnesOfEach)
  show "validPrimary ?out = filter (\<lambda>p. p \<noteq> [])
         (map (\<lambda>i. keepFirst (filter (\<lambda>x. x \<notin> set (concat (take i ?cs))) (?cs ! i)))
            [0..<length ?cs])"
    using newOnesOfEach_nth[of "[]" ?cs] by (simp add: validateCompoundDestination_eq)
  show "[] \<notin> set (validPrimary ?out)"
    by (simp add: validateCompoundDestination_eq)
  assume more: "1 < count_list (concat ?cs) X"
  then have "X \<in> set (concat ?cs)"
    by (metis count_notin not_less_zero)
  then show once: "count_list (concat (validPrimary ?out)) X = 1"
    unfolding flat by (intro count_distinct distinct_keepFirst) (simp add: set_keepFirst)
  have "count_list (concat (newOnesOfEach [] ?cs)) X + count_list (repeatedOnesOfEach [] ?cs) X
          = count_list (concat ?cs) X"
    by (rule count_newOnesOfEach)
  moreover have "concat (newOnesOfEach [] ?cs) = concat (validPrimary ?out)"
    by (simp add: validateCompoundDestination_eq concat_filter_not_Nil)
  moreover have "repeatedOnesOfEach [] ?cs = duplicateBackup ?out"
    by (simp add: validateCompoundDestination_eq)
  ultimately show "count_list (duplicateBackup ?out) X = count_list (concat ?cs) X - 1"
    using once by simp
qed

theorem validateCompoundDestination_dedup_witness:
  "1 < count_list (concat (validCandidates exampleEnvironment ''user1''
          ''a@x.com:b@x.com, a@x.com:bad: +t@y.org,b@x.com'')) ''a@x.com''
   \<and> count_list (concat (validPrimary (validateCompoundDestination exampleEnvironment ''user1''
          ''a@x.com:b@x.com, a@x.com:bad: +t@y.org,b@x.com''))) ''a@x.com'' = 1
   \<and> count_list (duplicateBackup (validateCompoundDestination exampleEnvironment ''user1''
          ''a@x.com:b@x.com, a@x.com:bad: +t@y.org,b@x.com'')) ''a@x.com'' = 1
   \<and> validateCompoundDestination exampleEnvironment ''user1''
          ''a@x.com:b@x.com, a@x.com:bad: +t@y.org,b@x.com''
      = \<lparr>validBackup = [''a@x.com'', ''b@x.com'', ''user1+t@y.org''],
         invalidBackup = [],
         validPrimary = [[''a@x.com'', ''b@x.com''], [''user1+t@y.org'']],
         duplicateBackup = [''a@x.com'', ''b@x.com'']\<rparr>"
proof -
  have cands: "validCandidates exampleEnvironment ''user1''
          ''a@x.com:b@x.com, a@x.com:bad: +t@y.org,b@x.com''
        = [[''a@x.com'', ''b@x.com''], [''a@x.com'', ''user1+t@y.org''], [''b@x.com'']]"
    by code_simp
  have out: "validateCompoundDestination exampleEnvironment ''user1''
          ''a@x.com:b@x.com, a@x.com:bad: +t@y.org,b@x.com''
      = \<lparr>validBackup = [''a@x.com'', ''b@x.com'', ''user1+t@y.org''],
         invalidBackup = [],
         validPrimary = [[''a@x.com'', ''b@x.com''], [''user1+t@y.org'']],
         duplicateBackup = [''a@x.com'', ''b@x.com'']\<rparr>"
    by code_simp
  have two: "count_list (concat (validCandidates exampleEnvironment ''user1''
          ''a@x.com:b@x.com, a@x.com:bad: +t@y.org,b@x.com'')) ''a@x.com'' = 2"
    unfolding cands by simp
  then have gt: "1 < count_list (concat (validCandidates exampleEnvironment ''user1''
          ''a@x.com:b@x.com, a@x.com:bad: +t@y.org,b@x.com'')) ''a@x.com''"
    by simp
  note dedup = validateCompoundDestination_dedup[of exampleEnvironment "''user1''"
          "''a@x.com:b@x.com, a@x.com:bad: +t@y.org,b@x.com''" "''a@x.com''"]
  note counts = dedup[THEN conjunct2, THEN conjunct2, THEN conjunct2, THEN mp, OF gt]
  from counts gt show ?thesis
    by (simp add: two out)
qed

text \<open>
  Claim C5. \<open>validatePrimaryDestination\<close> records an invalid candidate that is not
  empty, but \<open>validateCompoundDestination\<close> drops the record: the \<open>invalidBackup\<close> list
  of its output is empty for every text. For the text \<open>a@x.com:bad\<close> the primary has
  the invalid backup \<open>bad\<close> and the compound output has none.
\<close>

theorem validateCompoundDestination_invalidBackup_lost:
  "invalidBackup (validateCompoundDestination env user text) = []
   \<and> invalidBackup (validatePrimaryDestination exampleEnvironment ''user1'' ''a@x.com:bad'')
       = [''bad'']
   \<and> validateCompoundDestination exampleEnvironment ''user1'' ''a@x.com:bad''
       = \<lparr>validBackup = [''a@x.com''], invalidBackup = [],
          validPrimary = [[''a@x.com'']], duplicateBackup = []\<rparr>"
proof (intro conjI)
  show "invalidBackup (validateCompoundDestination env user text) = []"
    by (simp add: validateCompoundDestination_eq)
  show "invalidBackup (validatePrimaryDestination exampleEnvironment ''user1'' ''a@x.com:bad'')
       = [''bad'']"
    by code_simp
  show "validateCompoundDestination exampleEnvironment ''user1'' ''a@x.com:bad''
       = \<lparr>validBackup = [''a@x.com''], invalidBackup = [],
          validPrimary = [[''a@x.com'']], duplicateBackup = []\<rparr>"
    by code_simp
qed

section \<open>Forwarding\<close>

lemma callForward_calls:
  assumes "callForward message b h st = (out, st1)"
  shows "forwardCalls st1 = forwardCalls st @ [(b, h, out)]" and "rejectCalls st1 = rejectCalls st"
  using assms by (auto simp: callForward_def Let_def split: prod.splits)

text \<open>
  The loop, whatever the transport does. It either raises the \<open>TypeError\<close>, and then the
  last call it made rejected with \<open>null\<close> or \<open>undefined\<close>, or it ends with its loop
  variables, and then no call did.
\<close>

lemma forwardLoop_spec:
  "\<exists>res st' new.
     forwardLoop message rx pid h bs s had ems errs st = (res, st')
     \<and> forwardCalls st' = forwardCalls st @ new
     \<and> rejectCalls st' = rejectCalls st
     \<and> map fst new = take (length new) bs
     \<and> (\<forall>c\<in>set new. fst (snd c) = h)
     \<and> (\<forall>c\<in>set (butlast new). \<not> isSuccessfulCall c \<and> \<not> isNullishCall c)
     \<and> (res = Inl TypeError \<and> new \<noteq> [] \<and> isNullishCall (last new)
         \<or> (\<exists>ok s' had' ems' errs'.
               res = Inr (ok, s', had', ems', errs')
               \<and> (\<forall>c\<in>set new. \<not> isNullishCall c)
               \<and> errs' = errs @ failureMessages new
               \<and> map errorMessage ems' = map errorMessage ems @ failureMessages new
               \<and> had' = (had \<or> (\<exists>m\<in>set (failureMessages new). rx m))
               \<and> (ok \<longrightarrow> new \<noteq> [] \<and> isSuccessfulCall (last new) \<and> s' + 1 = s + length new)
               \<and> (\<not> ok \<longrightarrow> length new = length bs \<and> (\<forall>c\<in>set new. \<not> isSuccessfulCall c))))"
proof (induction bs arbitrary: s had ems errs st)
  case Nil
  show ?case
    by (intro exI[of _ "Inr (False, s, had, ems, errs)"] exI[of _ st] exI[of _ "[]"]) auto
next
  case (Cons b bs)
  obtain out st1 where cf: "callForward message b h st = (out, st1)"
    by (cases "callForward message b h st")
  note calls = callForward_calls[OF cf]
  show ?case
  proof (cases out)
    case Resolved
    let ?new = "[(b, h, Resolved)]"
    have e: "forwardLoop message rx pid h (b # bs) s had ems errs st
            = (Inr (True, s, had, ems, errs), st1)"
      using cf Resolved by simp
    have c1: "forwardCalls st1 = forwardCalls st @ ?new"
      using calls Resolved by simp
    have c3: "map fst ?new = take (length ?new) (b # bs)" by simp
    have c4: "\<forall>c\<in>set ?new. fst (snd c) = h" by simp
    have c5: "\<forall>c\<in>set (butlast ?new). \<not> isSuccessfulCall c \<and> \<not> isNullishCall c" by simp
    have d1: "\<forall>c\<in>set ?new. \<not> isNullishCall c" by (simp add: isNullishCall_def)
    have d2: "errs = errs @ failureMessages ?new" by simp
    have d3: "map errorMessage ems = map errorMessage ems @ failureMessages ?new" by simp
    have d4: "had = (had \<or> (\<exists>m\<in>set (failureMessages ?new). rx m))" by simp
    have d5: "True \<longrightarrow> ?new \<noteq> [] \<and> isSuccessfulCall (last ?new) \<and> s + 1 = s + length ?new"
      by (simp add: isSuccessfulCall_def)
    have d6: "\<not> True \<longrightarrow> length ?new = length (b # bs) \<and> (\<forall>c\<in>set ?new. \<not> isSuccessfulCall c)"
      by simp
    show ?thesis
      unfolding e
      by (intro exI[of _ "Inr (True, s, had, ems, errs)"] exI[of _ st1] exI[of _ ?new]
            conjI refl c1 calls(2) c3 c4 c5 disjI2 exI[of _ True] exI[of _ s] exI[of _ had]
            exI[of _ ems] exI[of _ errs] d1 d2 d3 d4 d5 d6)
  next
    case RejectedNullish
    let ?new = "[(b, h, RejectedNullish)]"
    have e: "forwardLoop message rx pid h (b # bs) s had ems errs st = (Inl TypeError, st1)"
      using cf RejectedNullish by simp
    have c1: "forwardCalls st1 = forwardCalls st @ ?new"
      using calls RejectedNullish by simp
    have c3: "map fst ?new = take (length ?new) (b # bs)" by simp
    have c4: "\<forall>c\<in>set ?new. fst (snd c) = h" by simp
    have c5: "\<forall>c\<in>set (butlast ?new). \<not> isSuccessfulCall c \<and> \<not> isNullishCall c" by simp
    have d1: "?new \<noteq> []" by simp
    have d2: "isNullishCall (last ?new)" by (simp add: isNullishCall_def)
    show ?thesis
      unfolding e
      by (intro exI[of _ "Inl TypeError"] exI[of _ st1] exI[of _ ?new]
            conjI refl c1 calls(2) c3 c4 c5 disjI1 d1 d2)
  next
    case (Rejected msg)
    let ?em = "\<lparr>primaryDestinationId = pid, backupDestinationId = s + 1,
                     backupDestination = b, errorMessage = msg\<rparr>"
    let ?had = "if rx msg then True else had"
    have unfold: "forwardLoop message rx pid h (b # bs) s had ems errs st
        = forwardLoop message rx pid h bs (s + 1) ?had (ems @ [?em]) (errs @ [msg]) st1"
      using cf Rejected by simp
    from Cons.IH[of "s + 1" ?had "ems @ [?em]" "errs @ [msg]" st1]
    obtain res st' new where
      r: "forwardLoop message rx pid h bs (s + 1) ?had (ems @ [?em]) (errs @ [msg]) st1 = (res, st')"
      and fc: "forwardCalls st' = forwardCalls st1 @ new"
      and rc: "rejectCalls st' = rejectCalls st1"
      and ad: "map fst new = take (length new) bs"
      and hd: "\<forall>c\<in>set new. fst (snd c) = h"
      and bl: "\<forall>c\<in>set (butlast new). \<not> isSuccessfulCall c \<and> \<not> isNullishCall c"
      and alt: "res = Inl TypeError \<and> new \<noteq> [] \<and> isNullishCall (last new)
         \<or> (\<exists>ok s' had' ems' errs'.
               res = Inr (ok, s', had', ems', errs')
               \<and> (\<forall>c\<in>set new. \<not> isNullishCall c)
               \<and> errs' = (errs @ [msg]) @ failureMessages new
               \<and> map errorMessage ems' = map errorMessage (ems @ [?em]) @ failureMessages new
               \<and> had' = (?had \<or> (\<exists>m\<in>set (failureMessages new). rx m))
               \<and> (ok \<longrightarrow> new \<noteq> [] \<and> isSuccessfulCall (last new) \<and> s' + 1 = (s + 1) + length new)
               \<and> (\<not> ok \<longrightarrow> length new = length bs \<and> (\<forall>c\<in>set new. \<not> isSuccessfulCall c)))"
      by blast
    let ?new = "(b, h, Rejected msg) # new"
    have c1: "forwardCalls st' = forwardCalls st @ ?new"
      using fc calls Rejected by simp
    have c2: "rejectCalls st' = rejectCalls st"
      using rc calls(2) by simp
    have c3: "map fst ?new = take (length ?new) (b # bs)"
      using ad by simp
    have c4: "\<forall>c\<in>set ?new. fst (snd c) = h"
      using hd by simp
    have c5: "\<forall>c\<in>set (butlast ?new). \<not> isSuccessfulCall c \<and> \<not> isNullishCall c"
      using bl by (auto simp: isSuccessfulCall_def isNullishCall_def dest: in_set_butlastD)
    have c6: "res = Inl TypeError \<and> ?new \<noteq> [] \<and> isNullishCall (last ?new)
         \<or> (\<exists>ok s' had' ems' errs'.
               res = Inr (ok, s', had', ems', errs')
               \<and> (\<forall>c\<in>set ?new. \<not> isNullishCall c)
               \<and> errs' = errs @ failureMessages ?new
               \<and> map errorMessage ems' = map errorMessage ems @ failureMessages ?new
               \<and> had' = (had \<or> (\<exists>m\<in>set (failureMessages ?new). rx m))
               \<and> (ok \<longrightarrow> ?new \<noteq> [] \<and> isSuccessfulCall (last ?new) \<and> s' + 1 = s + length ?new)
               \<and> (\<not> ok \<longrightarrow> length ?new = length (b # bs) \<and> (\<forall>c\<in>set ?new. \<not> isSuccessfulCall c)))"
      using alt
    proof
      assume "res = Inl TypeError \<and> new \<noteq> [] \<and> isNullishCall (last new)"
      then show ?thesis by simp
    next
      assume "\<exists>ok s' had' ems' errs'.
               res = Inr (ok, s', had', ems', errs')
               \<and> (\<forall>c\<in>set new. \<not> isNullishCall c)
               \<and> errs' = (errs @ [msg]) @ failureMessages new
               \<and> map errorMessage ems' = map errorMessage (ems @ [?em]) @ failureMessages new
               \<and> had' = (?had \<or> (\<exists>m\<in>set (failureMessages new). rx m))
               \<and> (ok \<longrightarrow> new \<noteq> [] \<and> isSuccessfulCall (last new) \<and> s' + 1 = (s + 1) + length new)
               \<and> (\<not> ok \<longrightarrow> length new = length bs \<and> (\<forall>c\<in>set new. \<not> isSuccessfulCall c))"
      then obtain ok s' had' ems' errs' where
        e: "res = Inr (ok, s', had', ems', errs')"
        and nn: "\<forall>c\<in>set new. \<not> isNullishCall c"
        and er: "errs' = (errs @ [msg]) @ failureMessages new"
        and em: "map errorMessage ems' = map errorMessage (ems @ [?em]) @ failureMessages new"
        and hr: "had' = (?had \<or> (\<exists>m\<in>set (failureMessages new). rx m))"
        and okc: "ok \<longrightarrow> new \<noteq> [] \<and> isSuccessfulCall (last new) \<and> s' + 1 = (s + 1) + length new"
        and nok: "\<not> ok \<longrightarrow> length new = length bs \<and> (\<forall>c\<in>set new. \<not> isSuccessfulCall c)"
        by blast
      have d1: "\<forall>c\<in>set ?new. \<not> isNullishCall c"
        using nn by (simp add: isNullishCall_def)
      have d2: "errs' = errs @ failureMessages ?new"
        using er by simp
      have d3: "map errorMessage ems' = map errorMessage ems @ failureMessages ?new"
        using em by simp
      have d4: "had' = (had \<or> (\<exists>m\<in>set (failureMessages ?new). rx m))"
        using hr by auto
      have d5: "ok \<longrightarrow> ?new \<noteq> [] \<and> isSuccessfulCall (last ?new) \<and> s' + 1 = s + length ?new"
        using okc by simp
      have d6: "\<not> ok \<longrightarrow> length ?new = length (b # bs) \<and> (\<forall>c\<in>set ?new. \<not> isSuccessfulCall c)"
        using nok by (simp add: isSuccessfulCall_def)
      show ?thesis
        by (intro disjI2 exI[of _ ok] exI[of _ s'] exI[of _ had'] exI[of _ ems'] exI[of _ errs']
              conjI e d1 d2 d3 d4 d5 d6)
    qed
    show ?thesis
      unfolding unfold r
      by (intro exI[of _ res] exI[of _ st'] exI[of _ ?new] conjI refl c1 c2 c3 c4 c5 c6)
  qed
qed


lemma forwardToPrimaryDestination_spec:
  "\<exists>res st' new.
     forwardToPrimaryDestination message pd pid h rx st = (res, st')
     \<and> forwardCalls st' = forwardCalls st @ new
     \<and> rejectCalls st' = rejectCalls st
     \<and> map fst new = take (length new) pd
     \<and> (\<forall>c\<in>set new. fst (snd c) = h)
     \<and> (\<forall>c\<in>set (butlast new). \<not> isSuccessfulCall c \<and> \<not> isNullishCall c)
     \<and> (res = Inl TypeError \<and> new \<noteq> [] \<and> isNullishCall (last new)
         \<or> (\<exists>r. res = Inr r
               \<and> (\<forall>c\<in>set new. \<not> isNullishCall c)
               \<and> errors r = failureMessages new
               \<and> map errorMessage (errorMessages r) = failureMessages new
               \<and> (hadRecoverableError r \<longleftrightarrow> (\<exists>m\<in>set (failureMessages new). rx m))
               \<and> (wasSuccessful r \<longrightarrow> new \<noteq> [] \<and> isSuccessfulCall (last new)
                      \<and> successfulDestination r = Some (fst (last new)))
               \<and> (\<not> wasSuccessful r \<longrightarrow> length new = length pd
                      \<and> (\<forall>c\<in>set new. \<not> isSuccessfulCall c)
                      \<and> successfulDestination r = None)))"
proof -
  from forwardLoop_spec[of message rx pid h pd 0 False "[]" "[]" st]
  obtain res st' new where
    r: "forwardLoop message rx pid h pd 0 False [] [] st = (res, st')"
    and c1: "forwardCalls st' = forwardCalls st @ new"
    and c2: "rejectCalls st' = rejectCalls st"
    and c3: "map fst new = take (length new) pd"
    and c4: "\<forall>c\<in>set new. fst (snd c) = h"
    and c5: "\<forall>c\<in>set (butlast new). \<not> isSuccessfulCall c \<and> \<not> isNullishCall c"
    and alt: "res = Inl TypeError \<and> new \<noteq> [] \<and> isNullishCall (last new)
         \<or> (\<exists>ok s' had' ems' errs'.
               res = Inr (ok, s', had', ems', errs')
               \<and> (\<forall>c\<in>set new. \<not> isNullishCall c)
               \<and> errs' = [] @ failureMessages new
               \<and> map errorMessage ems'
                   = map errorMessage ([] :: errorMessageRecord list) @ failureMessages new
               \<and> had' = (False \<or> (\<exists>m\<in>set (failureMessages new). rx m))
               \<and> (ok \<longrightarrow> new \<noteq> [] \<and> isSuccessfulCall (last new) \<and> s' + 1 = 0 + length new)
               \<and> (\<not> ok \<longrightarrow> length new = length pd \<and> (\<forall>c\<in>set new. \<not> isSuccessfulCall c)))"
    by (elim exE conjE) (rule that)
  from alt show ?thesis
  proof
    assume a: "res = Inl TypeError \<and> new \<noteq> [] \<and> isNullishCall (last new)"
    then have eq: "forwardToPrimaryDestination message pd pid h rx st = (Inl TypeError, st')"
      by (simp add: forwardToPrimaryDestination_def r)
    from a have d1: "new \<noteq> []" and d2: "isNullishCall (last new)"
      by simp_all
    show ?thesis
      by (intro exI[of _ "Inl TypeError"] exI[of _ st'] exI[of _ new] conjI eq c1 c2 c3 c4 c5
            disjI1 refl d1 d2)
  next
    assume "\<exists>ok s' had' ems' errs'.
               res = Inr (ok, s', had', ems', errs')
               \<and> (\<forall>c\<in>set new. \<not> isNullishCall c)
               \<and> errs' = [] @ failureMessages new
               \<and> map errorMessage ems'
                   = map errorMessage ([] :: errorMessageRecord list) @ failureMessages new
               \<and> had' = (False \<or> (\<exists>m\<in>set (failureMessages new). rx m))
               \<and> (ok \<longrightarrow> new \<noteq> [] \<and> isSuccessfulCall (last new) \<and> s' + 1 = 0 + length new)
               \<and> (\<not> ok \<longrightarrow> length new = length pd \<and> (\<forall>c\<in>set new. \<not> isSuccessfulCall c))"
    then obtain ok s' had' ems' errs' where
      e: "res = Inr (ok, s', had', ems', errs')"
      and nn: "\<forall>c\<in>set new. \<not> isNullishCall c"
      and er: "errs' = [] @ failureMessages new"
      and em: "map errorMessage ems'
                   = map errorMessage ([] :: errorMessageRecord list) @ failureMessages new"
      and hr: "had' = (False \<or> (\<exists>m\<in>set (failureMessages new). rx m))"
      and okc: "ok \<longrightarrow> new \<noteq> [] \<and> isSuccessfulCall (last new) \<and> s' + 1 = 0 + length new"
      and nok: "\<not> ok \<longrightarrow> length new = length pd \<and> (\<forall>c\<in>set new. \<not> isSuccessfulCall c)"
      by (elim exE conjE) (rule that)
    let ?r = "\<lparr>wasSuccessful = ok, hadRecoverableError = had',
              successfulDestination = (if ok then at pd s' else None),
              errorMessages = ems', errors = errs'\<rparr>"
    have eq: "forwardToPrimaryDestination message pd pid h rx st = (Inr ?r, st')"
      by (simp add: forwardToPrimaryDestination_def r e)
    have c6: "errors ?r = failureMessages new"
      using er by simp
    have c7: "map errorMessage (errorMessages ?r) = failureMessages new"
      using em by simp
    have c8: "hadRecoverableError ?r \<longleftrightarrow> (\<exists>m\<in>set (failureMessages new). rx m)"
      using hr by simp
    have c9: "wasSuccessful ?r \<longrightarrow> new \<noteq> [] \<and> isSuccessfulCall (last new)
              \<and> successfulDestination ?r = Some (fst (last new))"
    proof
      assume "wasSuccessful ?r"
      then have ok by simp
      with okc have ne: "new \<noteq> []" and suc: "isSuccessfulCall (last new)"
        and s': "s' = length new - 1"
        by auto
      have "length (map fst new) = length (take (length new) pd)"
        by (simp only: c3)
      then have len: "length new \<le> length pd"
        by simp
      from ne have pos: "0 < length new" by simp
      with len s' have lt: "s' < length pd" by linarith
      from pos s' have lt': "s' < length new" by linarith
      have "fst (last new) = last (map fst new)"
        using ne by (simp add: last_map)
      also have "\<dots> = map fst new ! s'"
        using ne s' by (simp add: last_conv_nth)
      also have "\<dots> = take (length new) pd ! s'"
        by (simp only: c3)
      also have "\<dots> = pd ! s'"
        using lt' by simp
      finally have "at pd s' = Some (fst (last new))"
        using lt by (simp add: at_def)
      with ne suc \<open>ok\<close> show "new \<noteq> [] \<and> isSuccessfulCall (last new)
              \<and> successfulDestination ?r = Some (fst (last new))"
        by simp
    qed
    have c10: "\<not> wasSuccessful ?r \<longrightarrow> length new = length pd
              \<and> (\<forall>c\<in>set new. \<not> isSuccessfulCall c) \<and> successfulDestination ?r = None"
      using nok by simp
    show ?thesis
      by (intro exI[of _ "Inr ?r"] exI[of _ st'] exI[of _ new] conjI eq c1 c2 c3 c4 c5
            disjI2 exI[of _ ?r] refl nn c6 c7 c8 c9 c10)
  qed
qed

lemma promiseAll_map_Inr: "promiseAll (map Inr xs) = Inr xs"
  by (induction xs) auto

lemma promiseAll_Inr: "promiseAll settled = Inr results \<Longrightarrow> settled = map Inr results"
proof (induction settled arbitrary: results rule: promiseAll.induct)
  case 1
  then show ?case by simp
next
  case (2 e rs)
  then show ?case by simp
next
  case (3 x rs)
  from 3(2) obtain xs where xs: "promiseAll rs = Inr xs" and r: "results = x # xs"
    by (auto split: sum.splits)
  from 3(1)[OF xs] r show ?case by simp
qed

lemma promiseAll_Inl: "promiseAll settled = Inl e \<Longrightarrow> Inl e \<in> set settled"
  by (induction settled rule: promiseAll.induct) (auto split: sum.splits)

lemma promiseAll_no_Inl:
  fixes settled :: "('e + 'a) list"
  assumes "\<forall>e. Inl e \<notin> set settled"
  shows "\<exists>results. promiseAll settled = Inr results"
proof (cases "promiseAll settled")
  case (Inl e)
  from promiseAll_Inl[OF this] assms show ?thesis by blast
next
  case (Inr results)
  then show ?thesis by blast
qed

lemma successful_last_call:
  assumes "new \<noteq> []" and "isSuccessfulCall (last new)" and "\<forall>c\<in>set new. fst (snd c) = h"
  shows "(fst (last new), h, Resolved) \<in> set new"
proof -
  have mem: "last new \<in> set new"
    using assms(1) by simp
  obtain a h' out where l: "last new = (a, h', out)"
    by (cases "last new")
  from mem assms(3) l have "h' = h" by force
  moreover from assms(2) l have "out = Resolved" by (simp add: isSuccessfulCall_def)
  ultimately show ?thesis using mem l by simp
qed

text \<open>
  All the primaries of a compound destination. A primary settles with the \<open>TypeError\<close>
  iff one of its calls rejected with \<open>null\<close> or \<open>undefined\<close>; the successful results are
  the ones with a call that resolved.
\<close>

lemma settledPrimaryDestinations_spec:
  "\<exists>settled st' new.
     settledPrimaryDestinations message rx h i cd st = (settled, st')
     \<and> length settled = length cd
     \<and> forwardCalls st' = forwardCalls st @ new
     \<and> rejectCalls st' = rejectCalls st
     \<and> (\<forall>e. Inl e \<in> set settled \<longrightarrow> e = TypeError)
     \<and> (list_ex isNullishCall new \<longleftrightarrow> (\<exists>e. Inl e \<in> set settled))
     \<and> (\<forall>r. Inr r \<in> set settled \<and> wasSuccessful r \<longrightarrow>
            (\<exists>a. successfulDestination r = Some a \<and> (a, h, Resolved) \<in> set new))
     \<and> (list_ex isSuccessfulCall new \<longleftrightarrow> (\<exists>r. Inr r \<in> set settled \<and> wasSuccessful r))"
proof (induction cd arbitrary: i st)
  case Nil
  show ?case
    by (intro exI[of _ "[]"] exI[of _ st] exI[of _ "[]"]) simp
next
  case (Cons pd pds)
  from forwardToPrimaryDestination_spec[of message pd "i + 1" h rx st]
  obtain res st1 new1 where
    p: "forwardToPrimaryDestination message pd (i + 1) h rx st = (res, st1)"
    and p1: "forwardCalls st1 = forwardCalls st @ new1"
    and p2: "rejectCalls st1 = rejectCalls st"
    and p4: "\<forall>c\<in>set new1. fst (snd c) = h"
    and p5: "\<forall>c\<in>set (butlast new1). \<not> isSuccessfulCall c \<and> \<not> isNullishCall c"
    and alt: "res = Inl TypeError \<and> new1 \<noteq> [] \<and> isNullishCall (last new1)
         \<or> (\<exists>r. res = Inr r
               \<and> (\<forall>c\<in>set new1. \<not> isNullishCall c)
               \<and> errors r = failureMessages new1
               \<and> map errorMessage (errorMessages r) = failureMessages new1
               \<and> (hadRecoverableError r \<longleftrightarrow> (\<exists>m\<in>set (failureMessages new1). rx m))
               \<and> (wasSuccessful r \<longrightarrow> new1 \<noteq> [] \<and> isSuccessfulCall (last new1)
                      \<and> successfulDestination r = Some (fst (last new1)))
               \<and> (\<not> wasSuccessful r \<longrightarrow> length new1 = length pd
                      \<and> (\<forall>c\<in>set new1. \<not> isSuccessfulCall c)
                      \<and> successfulDestination r = None))"
    by (elim exE conjE) (rule that)
  from Cons.IH[of "Suc i" st1]
  obtain settled st2 new2 where
    q: "settledPrimaryDestinations message rx h (Suc i) pds st1 = (settled, st2)"
    and q0: "length settled = length pds"
    and q1: "forwardCalls st2 = forwardCalls st1 @ new2"
    and q2: "rejectCalls st2 = rejectCalls st1"
    and q3: "\<forall>e. Inl e \<in> set settled \<longrightarrow> e = TypeError"
    and q4: "list_ex isNullishCall new2 \<longleftrightarrow> (\<exists>e. Inl e \<in> set settled)"
    and q5: "\<forall>r. Inr r \<in> set settled \<and> wasSuccessful r \<longrightarrow>
            (\<exists>a. successfulDestination r = Some a \<and> (a, h, Resolved) \<in> set new2)"
    and q6: "list_ex isSuccessfulCall new2 \<longleftrightarrow> (\<exists>r. Inr r \<in> set settled \<and> wasSuccessful r)"
    by (elim exE conjE) (rule that)
  have e: "settledPrimaryDestinations message rx h i (pd # pds) st = (res # settled, st2)"
    using p q by simp
  have c0: "length (res # settled) = length (pd # pds)"
    using q0 by simp
  have c1: "forwardCalls st2 = forwardCalls st @ (new1 @ new2)"
    using p1 q1 by simp
  have c2: "rejectCalls st2 = rejectCalls st"
    using p2 q2 by simp
  have f3: "\<forall>e. res = Inl e \<longrightarrow> e = TypeError"
    using alt by auto
  have f4: "list_ex isNullishCall new1 \<longleftrightarrow> (\<exists>e. res = Inl e)"
  proof
    assume "list_ex isNullishCall new1"
    with alt show "\<exists>e. res = Inl e"
      by (auto simp: list_ex_iff)
  next
    assume "\<exists>e. res = Inl e"
    with alt have "new1 \<noteq> []" "isNullishCall (last new1)" by auto
    then show "list_ex isNullishCall new1"
      unfolding list_ex_iff using last_in_set by blast
  qed
  have f5: "\<forall>r. res = Inr r \<and> wasSuccessful r \<longrightarrow>
            (\<exists>a. successfulDestination r = Some a \<and> (a, h, Resolved) \<in> set new1)"
  proof (intro allI impI)
    fix r assume a: "res = Inr r \<and> wasSuccessful r"
    with alt have "new1 \<noteq> []" "isSuccessfulCall (last new1)"
      "successfulDestination r = Some (fst (last new1))"
      by auto
    with successful_last_call[of new1 h] p4
    show "\<exists>a. successfulDestination r = Some a \<and> (a, h, Resolved) \<in> set new1"
      by blast
  qed
  have f6: "list_ex isSuccessfulCall new1 \<longleftrightarrow> (\<exists>r. res = Inr r \<and> wasSuccessful r)"
  proof
    assume s: "list_ex isSuccessfulCall new1"
    then obtain c where c: "c \<in> set new1" "isSuccessfulCall c"
      by (auto simp: list_ex_iff)
    have ne: "new1 \<noteq> []" using c(1) by auto
    have "c \<notin> set (butlast new1)" using p5 c(2) by blast
    with c(1) ne have "c = last new1"
      by (metis append_butlast_last_id set_ConsD set_append Un_iff list.set(1) empty_iff)
    with c(2) have l: "isSuccessfulCall (last new1)" by simp
    then have "\<not> isNullishCall (last new1)"
      by (simp add: isSuccessfulCall_def isNullishCall_def)
    with alt obtain r where r: "res = Inr r"
      and n: "\<not> wasSuccessful r \<longrightarrow> (\<forall>c\<in>set new1. \<not> isSuccessfulCall c)"
      by auto
    from n c have "wasSuccessful r" by blast
    with r show "\<exists>r. res = Inr r \<and> wasSuccessful r" by blast
  next
    assume "\<exists>r. res = Inr r \<and> wasSuccessful r"
    with alt have "new1 \<noteq> []" "isSuccessfulCall (last new1)" by auto
    then show "list_ex isSuccessfulCall new1"
      unfolding list_ex_iff using last_in_set by blast
  qed
  have c3: "\<forall>e. Inl e \<in> set (res # settled) \<longrightarrow> e = TypeError"
    using f3 q3 by auto
  have c4: "list_ex isNullishCall (new1 @ new2) \<longleftrightarrow> (\<exists>e. Inl e \<in> set (res # settled))"
    using f4 q4 by (simp add: list_ex_iff) blast
  have c5: "\<forall>r. Inr r \<in> set (res # settled) \<and> wasSuccessful r \<longrightarrow>
            (\<exists>a. successfulDestination r = Some a \<and> (a, h, Resolved) \<in> set (new1 @ new2))"
    using f5 q5 by auto
  have c6: "list_ex isSuccessfulCall (new1 @ new2)
            \<longleftrightarrow> (\<exists>r. Inr r \<in> set (res # settled) \<and> wasSuccessful r)"
    using f6 q6 by (simp add: list_ex_iff) blast
  show ?case
    by (intro exI[of _ "res # settled"] exI[of _ st2] exI[of _ "new1 @ new2"]
          conjI e c0 c1 c2 c3 c4 c5 c6)
qed


lemma compoundHadRecoverableError_iff:
  "compoundHadRecoverableError results
     \<longleftrightarrow> (\<exists>r\<in>set results. \<not> wasSuccessful r \<and> hadRecoverableError r)"
  by (auto simp: compoundHadRecoverableError_def list_ex_iff)

lemma compoundWasSuccessful_iff:
  "compoundWasSuccessful results
     \<longleftrightarrow> (\<not> compoundHadRecoverableError results \<and> (\<exists>r\<in>set results. wasSuccessful r))"
  by (auto simp: compoundWasSuccessful_def list_ex_iff)

lemma forwardToCompoundDestination_spec:
  "\<exists>settled st' new.
     settledPrimaryDestinations message rx h 0 cd st = (settled, st')
     \<and> length settled = length cd
     \<and> forwardCalls st' = forwardCalls st @ new
     \<and> rejectCalls st' = rejectCalls st
     \<and> (\<forall>results. settled = map Inr results \<longrightarrow>
           forwardToCompoundDestination message cd h rx st
             = (if compoundHadRecoverableError results
                then Inl (RecoverableForwardError (concat (map errors results)))
                else Inr (compoundWasSuccessful results), st')
           \<and> (\<forall>r\<in>set results. wasSuccessful r \<longrightarrow>
                 (\<exists>a. successfulDestination r = Some a \<and> (a, h, Resolved) \<in> set new))
           \<and> (list_ex isSuccessfulCall new \<longleftrightarrow> (\<exists>r\<in>set results. wasSuccessful r)))
     \<and> ((\<exists>results. settled = map Inr results)
          \<or> forwardToCompoundDestination message cd h rx st = (Inl TypeError, st'))
     \<and> (list_ex isNullishCall new \<or> (\<exists>results. settled = map Inr results))"
proof -
  from settledPrimaryDestinations_spec[of message rx h 0 cd st]
  obtain settled st' new where
    q: "settledPrimaryDestinations message rx h 0 cd st = (settled, st')"
    and q0: "length settled = length cd"
    and q1: "forwardCalls st' = forwardCalls st @ new"
    and q2: "rejectCalls st' = rejectCalls st"
    and q3: "\<forall>e. Inl e \<in> set settled \<longrightarrow> e = TypeError"
    and q4: "list_ex isNullishCall new \<longleftrightarrow> (\<exists>e. Inl e \<in> set settled)"
    and q5: "\<forall>r. Inr r \<in> set settled \<and> wasSuccessful r \<longrightarrow>
            (\<exists>a. successfulDestination r = Some a \<and> (a, h, Resolved) \<in> set new)"
    and q6: "list_ex isSuccessfulCall new \<longleftrightarrow> (\<exists>r. Inr r \<in> set settled \<and> wasSuccessful r)"
    by (elim exE conjE) (rule that)
  have c1: "\<forall>results. settled = map Inr results \<longrightarrow>
           forwardToCompoundDestination message cd h rx st
             = (if compoundHadRecoverableError results
                then Inl (RecoverableForwardError (concat (map errors results)))
                else Inr (compoundWasSuccessful results), st')
           \<and> (\<forall>r\<in>set results. wasSuccessful r \<longrightarrow>
                 (\<exists>a. successfulDestination r = Some a \<and> (a, h, Resolved) \<in> set new))
           \<and> (list_ex isSuccessfulCall new \<longleftrightarrow> (\<exists>r\<in>set results. wasSuccessful r))"
  proof (intro allI impI conjI)
    fix results assume s: "settled = map Inr results"
    show "forwardToCompoundDestination message cd h rx st
             = (if compoundHadRecoverableError results
                then Inl (RecoverableForwardError (concat (map errors results)))
                else Inr (compoundWasSuccessful results), st')"
      by (simp add: forwardToCompoundDestination_def q s promiseAll_map_Inr)
    show "\<forall>r\<in>set results. wasSuccessful r \<longrightarrow>
                 (\<exists>a. successfulDestination r = Some a \<and> (a, h, Resolved) \<in> set new)"
      using q5 s by auto
    show "list_ex isSuccessfulCall new \<longleftrightarrow> (\<exists>r\<in>set results. wasSuccessful r)"
      using q6 s by auto
  qed
  have c2: "(\<exists>results. settled = map Inr results)
          \<or> forwardToCompoundDestination message cd h rx st = (Inl TypeError, st')"
  proof (cases "promiseAll settled")
    case (Inl e)
    from promiseAll_Inl[OF Inl] q3 have "e = TypeError" by blast
    with Inl have "forwardToCompoundDestination message cd h rx st = (Inl TypeError, st')"
      by (simp add: forwardToCompoundDestination_def q)
    then show ?thesis by (rule disjI2)
  next
    case (Inr results)
    from promiseAll_Inr[OF Inr] show ?thesis by blast
  qed
  have c3: "list_ex isNullishCall new \<or> (\<exists>results. settled = map Inr results)"
  proof (cases "list_ex isNullishCall new")
    case True
    then show ?thesis by (rule disjI1)
  next
    case False
    with q4 have "\<forall>e. Inl e \<notin> set settled" by blast
    from promiseAll_no_Inl[OF this] obtain results where "promiseAll settled = Inr results"
      by blast
    from promiseAll_Inr[OF this] show ?thesis by blast
  qed
  show ?thesis
    by (intro exI[of _ settled] exI[of _ st'] exI[of _ new] conjI q q0 q1 q2 c1 c2 c3)
qed

text \<open>
  Claim C3. The calls of \<open>message.forward\<close> that \<open>forwardToPrimaryDestination\<close> adds are
  made to the backups in the order of the list, starting with the first and without a
  gap, and no call before the last one resolved. When every rejection carried an
  error, the function returns a result. When the result is successful, the last call
  resolved, no backup after it was tried, and its address is the
  \<open>successfulDestination\<close>. When the result is not successful,
  every backup was tried and every call failed, and \<open>hadRecoverableError\<close> holds iff
  the message of one of the failures, whichever it is, matches the pattern of
  recoverable errors.
\<close>

theorem forwardToPrimaryDestination_failover:
  "\<exists>res st' new.
     forwardToPrimaryDestination message pd pid h rx st = (res, st')
     \<and> forwardCalls st' = forwardCalls st @ new
     \<and> map fst new = take (length new) pd
     \<and> (\<forall>c\<in>set (butlast new). \<not> isSuccessfulCall c)
     \<and> ((\<forall>c\<in>set new. \<not> isNullishCall c) \<longrightarrow> (\<exists>r. res = Inr r))
     \<and> (\<forall>r. res = Inr r \<longrightarrow>
           (wasSuccessful r \<longrightarrow> new \<noteq> [] \<and> isSuccessfulCall (last new)
              \<and> successfulDestination r = Some (fst (last new)))
           \<and> (\<not> wasSuccessful r \<longrightarrow> length new = length pd
              \<and> (\<forall>c\<in>set new. \<not> isSuccessfulCall c)
              \<and> successfulDestination r = None
              \<and> (hadRecoverableError r \<longleftrightarrow> (\<exists>m\<in>set (failureMessages new). rx m))))"
proof -
  from forwardToPrimaryDestination_spec[of message pd pid h rx st]
  obtain res st' new where
    p: "forwardToPrimaryDestination message pd pid h rx st = (res, st')"
    and p1: "forwardCalls st' = forwardCalls st @ new"
    and p3: "map fst new = take (length new) pd"
    and p5: "\<forall>c\<in>set (butlast new). \<not> isSuccessfulCall c \<and> \<not> isNullishCall c"
    and alt: "res = Inl TypeError \<and> new \<noteq> [] \<and> isNullishCall (last new)
         \<or> (\<exists>r. res = Inr r
               \<and> (\<forall>c\<in>set new. \<not> isNullishCall c)
               \<and> errors r = failureMessages new
               \<and> map errorMessage (errorMessages r) = failureMessages new
               \<and> (hadRecoverableError r \<longleftrightarrow> (\<exists>m\<in>set (failureMessages new). rx m))
               \<and> (wasSuccessful r \<longrightarrow> new \<noteq> [] \<and> isSuccessfulCall (last new)
                      \<and> successfulDestination r = Some (fst (last new)))
               \<and> (\<not> wasSuccessful r \<longrightarrow> length new = length pd
                      \<and> (\<forall>c\<in>set new. \<not> isSuccessfulCall c)
                      \<and> successfulDestination r = None))"
    by (elim exE conjE) (rule that)
  have c4: "\<forall>c\<in>set (butlast new). \<not> isSuccessfulCall c"
    using p5 by blast
  have c5: "(\<forall>c\<in>set new. \<not> isNullishCall c) \<longrightarrow> (\<exists>r. res = Inr r)"
    using alt last_in_set by blast
  have c6: "\<forall>r. res = Inr r \<longrightarrow>
           (wasSuccessful r \<longrightarrow> new \<noteq> [] \<and> isSuccessfulCall (last new)
              \<and> successfulDestination r = Some (fst (last new)))
           \<and> (\<not> wasSuccessful r \<longrightarrow> length new = length pd
              \<and> (\<forall>c\<in>set new. \<not> isSuccessfulCall c)
              \<and> successfulDestination r = None
              \<and> (hadRecoverableError r \<longleftrightarrow> (\<exists>m\<in>set (failureMessages new). rx m)))"
    using alt by auto
  show ?thesis
    by (intro exI[of _ res] exI[of _ st'] exI[of _ new] conjI p p1 p3 c4 c5 c6)
qed


theorem forwardToPrimaryDestination_failover_witness:
  "forwardToPrimaryDestination
     (exampleMessage ''user@domain.com'' [(''a@x.com'', ''could not send email'')])
     [''a@x.com'', ''b@x.com'', ''c@x.com''] 1 (''X-My-Email-Forwarding'', ''pass'')
     (recoverableForwardImplementationErrorRegExp exampleEnvironment) (initialState 0)
   = (Inr \<lparr>wasSuccessful = True, hadRecoverableError = True,
           successfulDestination = Some ''b@x.com'',
           errorMessages = [\<lparr>primaryDestinationId = 1, backupDestinationId = 1,
                             backupDestination = ''a@x.com'',
                             errorMessage = ''could not send email''\<rparr>],
           errors = [''could not send email'']\<rparr>,
      \<lparr>world = 2,
       forwardCalls = [(''a@x.com'', (''X-My-Email-Forwarding'', ''pass''),
                         Rejected ''could not send email''),
                       (''b@x.com'', (''X-My-Email-Forwarding'', ''pass''), Resolved)],
       rejectCalls = []\<rparr>)
   \<and> (\<exists>r st'. forwardToPrimaryDestination
         (exampleMessage ''user@domain.com''
            [(''a@x.com'', ''could not send email''),
             (''b@x.com'', ''destination address not verified'')])
         [''a@x.com'', ''b@x.com''] 1 (''X-My-Email-Forwarding'', ''pass'')
         (recoverableForwardImplementationErrorRegExp exampleEnvironment) (initialState 0)
         = (Inr r, st')
       \<and> \<not> wasSuccessful r \<and> hadRecoverableError r
       \<and> map fst (forwardCalls st') = [''a@x.com'', ''b@x.com''])"
proof -
  let ?m = "exampleMessage ''user@domain.com''
            [(''a@x.com'', ''could not send email''),
             (''b@x.com'', ''destination address not verified'')]"
  let ?h = "(''X-My-Email-Forwarding'', ''pass'')"
  let ?rx = "recoverableForwardImplementationErrorRegExp exampleEnvironment"
  let ?r = "\<lparr>wasSuccessful = False, hadRecoverableError = True,
           successfulDestination = None,
           errorMessages = [\<lparr>primaryDestinationId = 1, backupDestinationId = 1,
                             backupDestination = ''a@x.com'',
                             errorMessage = ''could not send email''\<rparr>,
                            \<lparr>primaryDestinationId = 1, backupDestinationId = 2,
                             backupDestination = ''b@x.com'',
                             errorMessage = ''destination address not verified''\<rparr>],
           errors = [''could not send email'', ''destination address not verified'']\<rparr>"
  have one: "forwardToPrimaryDestination
     (exampleMessage ''user@domain.com'' [(''a@x.com'', ''could not send email'')])
     [''a@x.com'', ''b@x.com'', ''c@x.com''] 1 (''X-My-Email-Forwarding'', ''pass'')
     (recoverableForwardImplementationErrorRegExp exampleEnvironment) (initialState 0)
   = (Inr \<lparr>wasSuccessful = True, hadRecoverableError = True,
           successfulDestination = Some ''b@x.com'',
           errorMessages = [\<lparr>primaryDestinationId = 1, backupDestinationId = 1,
                             backupDestination = ''a@x.com'',
                             errorMessage = ''could not send email''\<rparr>],
           errors = [''could not send email'']\<rparr>,
      \<lparr>world = 2,
       forwardCalls = [(''a@x.com'', (''X-My-Email-Forwarding'', ''pass''),
                         Rejected ''could not send email''),
                       (''b@x.com'', (''X-My-Email-Forwarding'', ''pass''), Resolved)],
       rejectCalls = []\<rparr>)"
    by code_simp
  have two: "fst (forwardToPrimaryDestination ?m [''a@x.com'', ''b@x.com''] 1 ?h ?rx
                (initialState 0)) = Inr ?r"
    by code_simp
  from forwardToPrimaryDestination_failover[of ?m "[''a@x.com'', ''b@x.com'']" 1 ?h ?rx
         "initialState 0"]
  obtain res st' new where
    e: "forwardToPrimaryDestination ?m [''a@x.com'', ''b@x.com''] 1 ?h ?rx (initialState 0)
         = (res, st')"
    and c: "forwardCalls st' = forwardCalls (initialState (0::nat)) @ new"
    and a: "map fst new = take (length new) [''a@x.com'', ''b@x.com'']"
    and f: "\<forall>r. res = Inr r \<longrightarrow>
           (wasSuccessful r \<longrightarrow> new \<noteq> [] \<and> isSuccessfulCall (last new)
              \<and> successfulDestination r = Some (fst (last new)))
           \<and> (\<not> wasSuccessful r \<longrightarrow> length new = length [''a@x.com'', ''b@x.com'']
              \<and> (\<forall>c\<in>set new. \<not> isSuccessfulCall c)
              \<and> successfulDestination r = None
              \<and> (hadRecoverableError r \<longleftrightarrow> (\<exists>m\<in>set (failureMessages new). ?rx m)))"
    by (elim exE conjE) (rule that)
  from two have res: "res = Inr ?r"
    unfolding e by (simp only: fst_conv)
  have e': "forwardToPrimaryDestination ?m [''a@x.com'', ''b@x.com''] 1 ?h ?rx (initialState 0)
         = (Inr ?r, st')"
    using e res by simp
  have r1: "\<not> wasSuccessful ?r" and r2: "hadRecoverableError ?r"
    by simp_all
  from f res r1 have "length new = length [''a@x.com'', ''b@x.com'']"
    by blast
  with a c have m: "map fst (forwardCalls st') = [''a@x.com'', ''b@x.com'']"
    by (simp add: initialState_def)
  show ?thesis
    by (intro conjI exI[of _ ?r] exI[of _ st'] one e' r1 r2 m)
qed

text \<open>
  Claim C10. \<open>forwardToPrimaryDestination\<close> does propagate an exception: it raises iff
  one of the calls of \<open>message.forward\<close> that it made rejected with \<open>null\<close> or
  \<open>undefined\<close>. The \<open>catch\<close> block reads \<open>error.message\<close> of what it caught, and this
  read is a \<open>TypeError\<close> that nothing catches. With a transport that rejects with
  \<open>undefined\<close> for \<open>a@x.com\<close>, the primary destination with the backups \<open>a@x.com\<close> and
  \<open>b@x.com\<close> raises the \<open>TypeError\<close> after the first call, never tries \<open>b@x.com\<close> and
  records no error, and the handler raises the same \<open>TypeError\<close>, which does not
  originate from the aggregation of the compound destination.
\<close>

theorem forwardToPrimaryDestination_raises_TypeError:
  "((\<exists>e. fst (forwardToPrimaryDestination message pd pid h rx st) = Inl e)
      \<longleftrightarrow> list_ex isNullishCall
            (drop (length (forwardCalls st))
               (forwardCalls (snd (forwardToPrimaryDestination message pd pid h rx st)))))
   \<and> forwardToPrimaryDestination (nullishMessage ''user1@domain.com'' [''a@x.com''])
       [''a@x.com'', ''b@x.com''] 1 (''X-My-Email-Forwarding'', ''pass'')
       (recoverableForwardImplementationErrorRegExp exampleEnvironment) (initialState 0)
     = (Inl TypeError,
        \<lparr>world = 1,
         forwardCalls = [(''a@x.com'', (''X-My-Email-Forwarding'', ''pass''), RejectedNullish)],
         rejectCalls = []\<rparr>)
   \<and> email failoverEnvironment (nullishMessage ''user1@domain.com'' [''a@x.com''])
       (initialState 0)
     = (Inl TypeError,
        \<lparr>world = 1,
         forwardCalls = [(''a@x.com'', (''X-My-Email-Forwarding'', ''pass''), RejectedNullish)],
         rejectCalls = []\<rparr>)"
proof (intro conjI)
  from forwardToPrimaryDestination_spec[of message pd pid h rx st]
  obtain res st' new where
    p: "forwardToPrimaryDestination message pd pid h rx st = (res, st')"
    and p1: "forwardCalls st' = forwardCalls st @ new"
    and alt: "res = Inl TypeError \<and> new \<noteq> [] \<and> isNullishCall (last new)
         \<or> (\<exists>r. res = Inr r \<and> (\<forall>c\<in>set new. \<not> isNullishCall c))"
    by blast
  have d: "drop (length (forwardCalls st)) (forwardCalls st') = new"
    using p1 by simp
  from alt have "(\<exists>e. res = Inl e) \<longleftrightarrow> list_ex isNullishCall new"
  proof
    assume a: "res = Inl TypeError \<and> new \<noteq> [] \<and> isNullishCall (last new)"
    then have "last new \<in> set new" by simp
    with a show ?thesis by (auto simp: list_ex_iff)
  next
    assume "\<exists>r. res = Inr r \<and> (\<forall>c\<in>set new. \<not> isNullishCall c)"
    then show ?thesis by (auto simp: list_ex_iff)
  qed
  then show "(\<exists>e. fst (forwardToPrimaryDestination message pd pid h rx st) = Inl e)
      \<longleftrightarrow> list_ex isNullishCall
            (drop (length (forwardCalls st))
               (forwardCalls (snd (forwardToPrimaryDestination message pd pid h rx st))))"
    by (simp add: p d)
  show "forwardToPrimaryDestination (nullishMessage ''user1@domain.com'' [''a@x.com''])
       [''a@x.com'', ''b@x.com''] 1 (''X-My-Email-Forwarding'', ''pass'')
       (recoverableForwardImplementationErrorRegExp exampleEnvironment) (initialState 0)
     = (Inl TypeError,
        \<lparr>world = 1,
         forwardCalls = [(''a@x.com'', (''X-My-Email-Forwarding'', ''pass''), RejectedNullish)],
         rejectCalls = []\<rparr>)"
    by code_simp
  show "email failoverEnvironment (nullishMessage ''user1@domain.com'' [''a@x.com''])
       (initialState 0)
     = (Inl TypeError,
        \<lparr>world = 1,
         forwardCalls = [(''a@x.com'', (''X-My-Email-Forwarding'', ''pass''), RejectedNullish)],
         rejectCalls = []\<rparr>)"
    by code_simp
qed

text \<open>
  Claim C1. Over the results of the primary destinations, \<open>hadRecoverableError\<close> holds
  iff some result is not successful and had a recoverable error, and \<open>wasSuccessful\<close>
  holds iff \<open>hadRecoverableError\<close> does not and some result is successful. When every
  primary destination has settled with a result, \<open>forwardToCompoundDestination\<close> raises
  \<open>RecoverableForwardError\<close> when \<open>hadRecoverableError\<close> holds and returns
  \<open>wasSuccessful\<close> otherwise, and in both cases every successful result stands for a
  call of \<open>message.forward\<close> to its \<open>successfulDestination\<close> that resolved and is on
  record. Every primary destination settles with a result when every rejection of the
  transport carried an error.
\<close>

theorem forwardToCompoundDestination_aggregation:
  "\<exists>settled st'.
     settledPrimaryDestinations message rx h 0 cd st = (settled, st')
     \<and> length settled = length cd
     \<and> ((\<forall>c\<in>set (drop (length (forwardCalls st)) (forwardCalls st')). \<not> isNullishCall c)
          \<longrightarrow> (\<exists>results. settled = map Inr results))
     \<and> (\<forall>results. settled = map Inr results \<longrightarrow>
           length results = length cd
           \<and> (compoundHadRecoverableError results
                \<longleftrightarrow> (\<exists>r\<in>set results. \<not> wasSuccessful r \<and> hadRecoverableError r))
           \<and> (compoundWasSuccessful results
                \<longleftrightarrow> (\<not> compoundHadRecoverableError results
                     \<and> (\<exists>r\<in>set results. wasSuccessful r)))
           \<and> forwardToCompoundDestination message cd h rx st
               = (if compoundHadRecoverableError results
                  then Inl (RecoverableForwardError (concat (map errors results)))
                  else Inr (compoundWasSuccessful results), st')
           \<and> (\<forall>r\<in>set results. wasSuccessful r \<longrightarrow>
                 (\<exists>a. successfulDestination r = Some a
                      \<and> (a, h, Resolved) \<in> set (forwardCalls st'))))"
proof -
  from forwardToCompoundDestination_spec[of message rx h cd st]
  obtain settled st' new where
    q: "settledPrimaryDestinations message rx h 0 cd st = (settled, st')"
    and q0: "length settled = length cd"
    and q1: "forwardCalls st' = forwardCalls st @ new"
    and blk: "\<forall>results. settled = map Inr results \<longrightarrow>
           forwardToCompoundDestination message cd h rx st
             = (if compoundHadRecoverableError results
                then Inl (RecoverableForwardError (concat (map errors results)))
                else Inr (compoundWasSuccessful results), st')
           \<and> (\<forall>r\<in>set results. wasSuccessful r \<longrightarrow>
                 (\<exists>a. successfulDestination r = Some a \<and> (a, h, Resolved) \<in> set new))
           \<and> (list_ex isSuccessfulCall new \<longleftrightarrow> (\<exists>r\<in>set results. wasSuccessful r))"
    and nul: "list_ex isNullishCall new \<or> (\<exists>results. settled = map Inr results)"
    by (elim exE conjE) (rule that)
  have d: "drop (length (forwardCalls st)) (forwardCalls st') = new"
    using q1 by simp
  have c1: "(\<forall>c\<in>set (drop (length (forwardCalls st)) (forwardCalls st')). \<not> isNullishCall c)
          \<longrightarrow> (\<exists>results. settled = map Inr results)"
    unfolding d using nul by (auto simp: list_ex_iff)
  have c2: "\<forall>results. settled = map Inr results \<longrightarrow>
           length results = length cd
           \<and> (compoundHadRecoverableError results
                \<longleftrightarrow> (\<exists>r\<in>set results. \<not> wasSuccessful r \<and> hadRecoverableError r))
           \<and> (compoundWasSuccessful results
                \<longleftrightarrow> (\<not> compoundHadRecoverableError results
                     \<and> (\<exists>r\<in>set results. wasSuccessful r)))
           \<and> forwardToCompoundDestination message cd h rx st
               = (if compoundHadRecoverableError results
                  then Inl (RecoverableForwardError (concat (map errors results)))
                  else Inr (compoundWasSuccessful results), st')
           \<and> (\<forall>r\<in>set results. wasSuccessful r \<longrightarrow>
                 (\<exists>a. successfulDestination r = Some a
                      \<and> (a, h, Resolved) \<in> set (forwardCalls st')))"
  proof (intro allI impI conjI)
    fix results assume s: "settled = map Inr results"
    show "length results = length cd"
      using q0 s by simp
    show "compoundHadRecoverableError results
                \<longleftrightarrow> (\<exists>r\<in>set results. \<not> wasSuccessful r \<and> hadRecoverableError r)"
      by (rule compoundHadRecoverableError_iff)
    show "compoundWasSuccessful results
                \<longleftrightarrow> (\<not> compoundHadRecoverableError results
                     \<and> (\<exists>r\<in>set results. wasSuccessful r))"
      by (rule compoundWasSuccessful_iff)
    show "forwardToCompoundDestination message cd h rx st
               = (if compoundHadRecoverableError results
                  then Inl (RecoverableForwardError (concat (map errors results)))
                  else Inr (compoundWasSuccessful results), st')"
      using blk s by blast
    show "\<forall>r\<in>set results. wasSuccessful r \<longrightarrow>
                 (\<exists>a. successfulDestination r = Some a
                      \<and> (a, h, Resolved) \<in> set (forwardCalls st'))"
    proof (intro ballI impI)
      fix r assume "r \<in> set results" "wasSuccessful r"
      with blk s obtain a where "successfulDestination r = Some a" "(a, h, Resolved) \<in> set new"
        by blast
      then show "\<exists>a. successfulDestination r = Some a
                      \<and> (a, h, Resolved) \<in> set (forwardCalls st')"
        using q1 by auto
    qed
  qed
  show ?thesis
    by (intro exI[of _ settled] exI[of _ st'] conjI q q0 c1 c2)
qed

theorem forwardToCompoundDestination_aggregation_witness:
  "forwardToCompoundDestination
     (exampleMessage ''user@domain.com'' [(''a@x.com'', ''could not send email'')])
     [[''a@x.com''], [''b@x.com'']] (''X-My-Email-Forwarding'', ''pass'')
     (recoverableForwardImplementationErrorRegExp exampleEnvironment) (initialState 0)
   = (Inl (RecoverableForwardError [''could not send email'']),
      \<lparr>world = 2,
       forwardCalls = [(''a@x.com'', (''X-My-Email-Forwarding'', ''pass''),
                         Rejected ''could not send email''),
                       (''b@x.com'', (''X-My-Email-Forwarding'', ''pass''), Resolved)],
       rejectCalls = []\<rparr>)
   \<and> (\<exists>results st'.
         settledPrimaryDestinations
           (exampleMessage ''user@domain.com'' [(''a@x.com'', ''could not send email'')])
           (recoverableForwardImplementationErrorRegExp exampleEnvironment)
           (''X-My-Email-Forwarding'', ''pass'') 0 [[''a@x.com''], [''b@x.com'']]
           (initialState 0) = (map Inr results, st')
         \<and> compoundHadRecoverableError results \<and> \<not> compoundWasSuccessful results
         \<and> (\<exists>r\<in>set results. wasSuccessful r
               \<and> successfulDestination r = Some ''b@x.com''
               \<and> (''b@x.com'', (''X-My-Email-Forwarding'', ''pass''), Resolved)
                    \<in> set (forwardCalls st')))"
proof -
  let ?m = "exampleMessage ''user@domain.com'' [(''a@x.com'', ''could not send email'')]"
  let ?h = "(''X-My-Email-Forwarding'', ''pass'')"
  let ?rx = "recoverableForwardImplementationErrorRegExp exampleEnvironment"
  let ?cd = "[[''a@x.com''], [''b@x.com'']]"
  let ?ra = "\<lparr>wasSuccessful = False, hadRecoverableError = True,
             successfulDestination = None,
             errorMessages = [\<lparr>primaryDestinationId = 1, backupDestinationId = 1,
                               backupDestination = ''a@x.com'',
                               errorMessage = ''could not send email''\<rparr>],
             errors = [''could not send email'']\<rparr>"
  let ?rb = "\<lparr>wasSuccessful = True, hadRecoverableError = False,
             successfulDestination = Some ''b@x.com'', errorMessages = [], errors = []\<rparr>"
  have run: "forwardToCompoundDestination ?m ?cd ?h ?rx (initialState 0)
   = (Inl (RecoverableForwardError [''could not send email'']),
      \<lparr>world = 2,
       forwardCalls = [(''a@x.com'', (''X-My-Email-Forwarding'', ''pass''),
                         Rejected ''could not send email''),
                       (''b@x.com'', (''X-My-Email-Forwarding'', ''pass''), Resolved)],
       rejectCalls = []\<rparr>)"
    by code_simp
  have ev: "fst (settledPrimaryDestinations ?m ?rx ?h 0 ?cd (initialState 0))
              = map Inr [?ra, ?rb]"
    by code_simp
  from forwardToCompoundDestination_aggregation[of ?m ?rx ?h ?cd "initialState 0"]
  obtain settled st' where
    q: "settledPrimaryDestinations ?m ?rx ?h 0 ?cd (initialState 0) = (settled, st')"
    and blk: "\<forall>results. settled = map Inr results \<longrightarrow>
           length results = length ?cd
           \<and> (compoundHadRecoverableError results
                \<longleftrightarrow> (\<exists>r\<in>set results. \<not> wasSuccessful r \<and> hadRecoverableError r))
           \<and> (compoundWasSuccessful results
                \<longleftrightarrow> (\<not> compoundHadRecoverableError results
                     \<and> (\<exists>r\<in>set results. wasSuccessful r)))
           \<and> forwardToCompoundDestination ?m ?cd ?h ?rx (initialState 0)
               = (if compoundHadRecoverableError results
                  then Inl (RecoverableForwardError (concat (map errors results)))
                  else Inr (compoundWasSuccessful results), st')
           \<and> (\<forall>r\<in>set results. wasSuccessful r \<longrightarrow>
                 (\<exists>a. successfulDestination r = Some a
                      \<and> (a, ?h, Resolved) \<in> set (forwardCalls st')))"
    by (elim exE conjE) (rule that)
  from ev have s: "settled = map Inr [?ra, ?rb]"
    unfolding q by (simp only: fst_conv)
  note b = blk[rule_format, OF s]
  have q': "settledPrimaryDestinations ?m ?rx ?h 0 ?cd (initialState 0)
              = (map Inr [?ra, ?rb], st')"
    using q s by simp
  have had: "compoundHadRecoverableError [?ra, ?rb]"
    using b[THEN conjunct2, THEN conjunct1] by simp
  have nw: "\<not> compoundWasSuccessful [?ra, ?rb]"
    using b[THEN conjunct2, THEN conjunct2, THEN conjunct1] had by simp
  have rec: "\<forall>r\<in>set [?ra, ?rb]. wasSuccessful r \<longrightarrow>
                 (\<exists>a. successfulDestination r = Some a
                      \<and> (a, ?h, Resolved) \<in> set (forwardCalls st'))"
    using b[THEN conjunct2, THEN conjunct2, THEN conjunct2, THEN conjunct2] .
  then have onrec: "(''b@x.com'', ?h, Resolved) \<in> set (forwardCalls st')"
    by simp
  have ex: "\<exists>r\<in>set [?ra, ?rb]. wasSuccessful r
               \<and> successfulDestination r = Some ''b@x.com''
               \<and> (''b@x.com'', ?h, Resolved) \<in> set (forwardCalls st')"
    using onrec by simp
  show ?thesis
    by (intro conjI exI[of _ "[?ra, ?rb]"] exI[of _ st'] run q' had nw ex)
qed

section \<open>The disposition of a message\<close>

lemma forwardToCompoundDestination_calls:
  "\<exists>res st' new.
     forwardToCompoundDestination message cd h rx st = (res, st')
     \<and> forwardCalls st' = forwardCalls st @ new
     \<and> rejectCalls st' = rejectCalls st
     \<and> (\<forall>b. res = Inr b \<longrightarrow> (b \<longleftrightarrow> list_ex isSuccessfulCall new))"
proof -
  from forwardToCompoundDestination_spec[of message rx h cd st]
  obtain settled st' new where
    q: "settledPrimaryDestinations message rx h 0 cd st = (settled, st')"
    and q1: "forwardCalls st' = forwardCalls st @ new"
    and q2: "rejectCalls st' = rejectCalls st"
    and blk: "\<forall>results. settled = map Inr results \<longrightarrow>
           forwardToCompoundDestination message cd h rx st
             = (if compoundHadRecoverableError results
                then Inl (RecoverableForwardError (concat (map errors results)))
                else Inr (compoundWasSuccessful results), st')
           \<and> (\<forall>r\<in>set results. wasSuccessful r \<longrightarrow>
                 (\<exists>a. successfulDestination r = Some a \<and> (a, h, Resolved) \<in> set new))
           \<and> (list_ex isSuccessfulCall new \<longleftrightarrow> (\<exists>r\<in>set results. wasSuccessful r))"
    and alt: "(\<exists>results. settled = map Inr results)
          \<or> forwardToCompoundDestination message cd h rx st = (Inl TypeError, st')"
    by (elim exE conjE) (rule that)
  from alt show ?thesis
  proof
    assume "\<exists>results. settled = map Inr results"
    then obtain results where s: "settled = map Inr results" ..
    let ?res = "if compoundHadRecoverableError results
            then Inl (RecoverableForwardError (concat (map errors results)))
            else Inr (compoundWasSuccessful results)"
    from blk s have e: "forwardToCompoundDestination message cd h rx st = (?res, st')"
      and q4: "list_ex isSuccessfulCall new \<longleftrightarrow> (\<exists>r\<in>set results. wasSuccessful r)"
      by blast+
    have b: "\<forall>b. ?res = Inr b \<longrightarrow> (b \<longleftrightarrow> list_ex isSuccessfulCall new)"
      using q4 by (auto simp: compoundWasSuccessful_iff)
    show ?thesis
      by (intro exI[of _ ?res] exI[of _ st'] exI[of _ new] conjI e q1 q2 b)
  next
    assume e: "forwardToCompoundDestination message cd h rx st = (Inl TypeError, st')"
    have b: "\<forall>b. (Inl TypeError :: exn + bool) = Inr b \<longrightarrow> (b \<longleftrightarrow> list_ex isSuccessfulCall new)"
      by simp
    show ?thesis
      by (intro exI[of _ "Inl TypeError"] exI[of _ st'] exI[of _ new] conjI e q1 q2 b)
  qed
qed

lemma acceptForward_calls:
  "\<exists>res st' new.
     acceptForward env message ch dest st = (res, st')
     \<and> forwardCalls st' = forwardCalls st @ new
     \<and> rejectCalls st' = rejectCalls st
     \<and> (\<forall>b. res = Inr b \<longrightarrow> (b \<longleftrightarrow> list_ex isSuccessfulCall new))"
proof (cases "messageUserIsAllowed env message \<and> messageSubaddressIsAllowed env message")
  case True
  then have eq: "acceptForward env message ch dest st
      = forwardToCompoundDestination message
             (validPrimary (validateCompoundDestination env (messageUser env message) dest))
             (ch, trim (CUSTOM_HEADER_PASS env))
             (recoverableForwardImplementationErrorRegExp env) st"
    by (simp add: acceptForward_def)
  show ?thesis
    unfolding eq by (rule forwardToCompoundDestination_calls)
next
  case False
  then have "acceptForward env message ch dest st = (Inr False, st)"
    unfolding acceptForward_def by (rule if_not_P)
  then show ?thesis
    by (intro exI[of _ "Inr False"] exI[of _ st] exI[of _ "[]"]) simp
qed

lemma rejectForward_calls:
  "\<exists>res st' new.
     rejectForward env message ch st = (res, st')
     \<and> forwardCalls st' = forwardCalls st @ new
     \<and> rejectCalls st' = rejectCalls st
     \<and> (\<forall>b. res = Inr b \<longrightarrow> (b \<longleftrightarrow> list_ex isSuccessfulCall new))"
proof (cases "length (validPrimary (validateCompoundDestination env (messageUser env message)
                 (userRejectTreatment env message))) > 0")
  case True
  then have eq: "rejectForward env message ch st
      = forwardToCompoundDestination message
             (validPrimary (validateCompoundDestination env (messageUser env message)
                (userRejectTreatment env message)))
             (ch, trim (CUSTOM_HEADER_FAIL env))
             (recoverableForwardImplementationErrorRegExp env) st"
    by (simp add: rejectForward_def)
  show ?thesis
    unfolding eq by (rule forwardToCompoundDestination_calls)
next
  case False
  then have "rejectForward env message ch st = (Inr False, st)"
    unfolding rejectForward_def Let_def by (rule if_not_P)
  then show ?thesis
    by (intro exI[of _ "Inr False"] exI[of _ st] exI[of _ "[]"]) simp
qed

text \<open>The handler after the custom header and the destination have been resolved.\<close>

lemma email_steps:
  assumes h: "validateCustomHeader env (CUSTOM_HEADER env) = Inr ch"
    and d: "userDestination env message = Inr dest"
    and a: "acceptForward env message ch dest st = (res1, st1)"
    and r: "rejectForward env message ch st1 = (res2, st2)"
  shows "email env message st =
     (case res1 of
        Inl e \<Rightarrow> (Inl e, st1)
      | Inr ok1 \<Rightarrow> if ok1 then (Inr (), st1)
          else (case res2 of
                  Inl e \<Rightarrow> (Inl e, st2)
                | Inr ok2 \<Rightarrow> if ok2 then (Inr (), st2)
                    else (Inr (), setReject (fullRejectReason env message) st2)))"
  by (simp add: email_def h d a r split: sum.splits)

text \<open>
  Claim C2. One invocation of the handler, started with no call on record, ends in
  exactly one of three ways: it raises, and \<open>setReject\<close> has not been called; or it
  completes with a forward that resolved on record and \<open>setReject\<close> has not been called;
  or it completes with no forward that resolved and \<open>setReject\<close> has been called exactly
  once. In no case is \<open>setReject\<close> called more than once.
\<close>

theorem email_outcomes:
  "\<exists>res st'.
     email env message (initialState w) = (res, st')
     \<and> length (rejectCalls st') \<le> 1
     \<and> ((\<exists>e. res = Inl e) \<and> rejectCalls st' = []
        \<or> res = Inr () \<and> anySuccessfulForward st' \<and> rejectCalls st' = []
        \<or> res = Inr () \<and> \<not> anySuccessfulForward st' \<and> (\<exists>reason. rejectCalls st' = [reason]))"
proof -
  let ?st = "initialState w"
  have init: "forwardCalls ?st = []" "rejectCalls ?st = []"
    by (simp_all add: initialState_def)
  show ?thesis
  proof (cases "validateCustomHeader env (CUSTOM_HEADER env)")
    case (Inl e)
    then have "email env message ?st = (Inl e, ?st)"
      by (simp add: email_def)
    then show ?thesis
      using init by (intro exI[of _ "Inl e"] exI[of _ ?st]) simp
  next
    case h: (Inr ch)
    show ?thesis
    proof (cases "userDestination env message")
      case (Inl e)
      then have "email env message ?st = (Inl e, ?st)"
        by (simp add: email_def h)
      then show ?thesis
        using init by (intro exI[of _ "Inl e"] exI[of _ ?st]) simp
    next
      case d: (Inr dest)
      from acceptForward_calls[of env message ch dest ?st]
      obtain res1 st1 new1 where
        a: "acceptForward env message ch dest ?st = (res1, st1)"
        and a1: "forwardCalls st1 = forwardCalls ?st @ new1"
        and a2: "rejectCalls st1 = rejectCalls ?st"
        and a3: "\<forall>b. res1 = Inr b \<longrightarrow> (b \<longleftrightarrow> list_ex isSuccessfulCall new1)"
        by blast
      from rejectForward_calls[of env message ch st1]
      obtain res2 st2 new2 where
        r: "rejectForward env message ch st1 = (res2, st2)"
        and r1: "forwardCalls st2 = forwardCalls st1 @ new2"
        and r2: "rejectCalls st2 = rejectCalls st1"
        and r3: "\<forall>b. res2 = Inr b \<longrightarrow> (b \<longleftrightarrow> list_ex isSuccessfulCall new2)"
        by blast
      note e = email_steps[OF h d a r]
      have f1: "forwardCalls st1 = new1" and j1: "rejectCalls st1 = []"
        using a1 a2 init by simp_all
      have f2: "forwardCalls st2 = new1 @ new2" and j2: "rejectCalls st2 = []"
        using r1 r2 f1 j1 by simp_all
      show ?thesis
      proof (cases res1)
        case (Inl x)
        then have "email env message ?st = (Inl x, st1)"
          using e by simp
        then show ?thesis
          using j1 by (intro exI[of _ "Inl x"] exI[of _ st1]) simp
      next
        case ok1: (Inr ok1)
        from a3 ok1 have s1: "ok1 \<longleftrightarrow> list_ex isSuccessfulCall new1"
          by blast
        show ?thesis
        proof (cases ok1)
          case True
          then have "email env message ?st = (Inr (), st1)"
            using e ok1 by simp
          moreover have "anySuccessfulForward st1"
            using s1 True f1 by (simp add: anySuccessfulForward_def)
          ultimately show ?thesis
            using j1 by (intro exI[of _ "Inr ()"] exI[of _ st1]) simp
        next
          case no1: False
          then have n1: "\<not> list_ex isSuccessfulCall new1"
            using s1 by simp
          show ?thesis
          proof (cases res2)
            case (Inl x)
            then have "email env message ?st = (Inl x, st2)"
              using e ok1 no1 by simp
            then show ?thesis
              using j2 by (intro exI[of _ "Inl x"] exI[of _ st2]) simp
          next
            case ok2: (Inr ok2)
            from r3 ok2 have s2: "ok2 \<longleftrightarrow> list_ex isSuccessfulCall new2"
              by blast
            show ?thesis
            proof (cases ok2)
              case True
              then have "email env message ?st = (Inr (), st2)"
                using e ok1 no1 ok2 by simp
              moreover have "anySuccessfulForward st2"
                using s2 True f2 by (auto simp: anySuccessfulForward_def list_ex_iff)
              ultimately show ?thesis
                using j2 by (intro exI[of _ "Inr ()"] exI[of _ st2]) simp
            next
              case no2: False
              let ?st3 = "setReject (fullRejectReason env message) st2"
              have "email env message ?st = (Inr (), ?st3)"
                using e ok1 no1 ok2 no2 by simp
              moreover have "\<not> list_ex isSuccessfulCall new2"
                using s2 no2 by simp
              then have "\<not> anySuccessfulForward ?st3"
                using n1 f2 by (auto simp: anySuccessfulForward_def setReject_def list_ex_iff)
              moreover have "rejectCalls ?st3 = [fullRejectReason env message]"
                using j2 by (simp add: setReject_def)
              ultimately show ?thesis
                by (intro exI[of _ "Inr ()"] exI[of _ ?st3]) simp
            qed
          qed
        qed
      qed
    qed
  qed
qed

theorem email_outcomes_witness:
  "(\<exists>st'. email (exampleEnvironment\<lparr>USERS := ''user1'', DESTINATION := ''user1@email.com''\<rparr>)
            (exampleMessage ''user2@domain.com'' []) (initialState 0) = (Inr (), st')
          \<and> \<not> anySuccessfulForward st' \<and> rejectCalls st' = [''default reject reason''])
   \<and> (\<exists>st'. email (exampleEnvironment\<lparr>USERS := ''user1'', DESTINATION := ''user1@email.com''\<rparr>)
            (exampleMessage ''user1@domain.com'' []) (initialState 0) = (Inr (), st')
          \<and> anySuccessfulForward st' \<and> rejectCalls st' = [])
   \<and> (\<exists>e st'. email (exampleEnvironment\<lparr>USERS := ''user1'', DESTINATION := ''a@x.com,b@x.com''\<rparr>)
            (exampleMessage ''user1@domain.com'' [(''a@x.com'', ''could not send email'')])
            (initialState 0) = (Inl e, st')
          \<and> rejectCalls st' = [])"
proof -
  let ?E = "exampleEnvironment\<lparr>USERS := ''user1'', DESTINATION := ''user1@email.com''\<rparr>"
  let ?E2 = "exampleEnvironment\<lparr>USERS := ''user1'', DESTINATION := ''a@x.com,b@x.com''\<rparr>"
  have r1: "email ?E (exampleMessage ''user2@domain.com'' []) (initialState 0)
      = (Inr (), \<lparr>world = 0, forwardCalls = [], rejectCalls = [''default reject reason'']\<rparr>)"
    by code_simp
  have r2: "email ?E (exampleMessage ''user1@domain.com'' []) (initialState 0)
      = (Inr (), \<lparr>world = 1,
           forwardCalls = [(''user1@email.com'', (''X-My-Email-Forwarding'', ''pass''), Resolved)],
           rejectCalls = []\<rparr>)"
    by code_simp
  have r3: "email ?E2 (exampleMessage ''user1@domain.com'' [(''a@x.com'', ''could not send email'')])
            (initialState 0)
      = (Inl (RecoverableForwardError [''could not send email'']),
         \<lparr>world = 2,
          forwardCalls = [(''a@x.com'', (''X-My-Email-Forwarding'', ''pass''),
                            Rejected ''could not send email''),
                          (''b@x.com'', (''X-My-Email-Forwarding'', ''pass''), Resolved)],
          rejectCalls = []\<rparr>)"
    by code_simp
  from email_outcomes[of ?E "exampleMessage ''user2@domain.com'' []" 0] r1
  have c1: "\<exists>st'. email ?E (exampleMessage ''user2@domain.com'' []) (initialState 0) = (Inr (), st')
          \<and> \<not> anySuccessfulForward st' \<and> rejectCalls st' = [''default reject reason'']"
    by auto
  from email_outcomes[of ?E "exampleMessage ''user1@domain.com'' []" 0] r2
  have c2: "\<exists>st'. email ?E (exampleMessage ''user1@domain.com'' []) (initialState 0) = (Inr (), st')
          \<and> anySuccessfulForward st' \<and> rejectCalls st' = []"
    by auto
  from email_outcomes[of ?E2
         "exampleMessage ''user1@domain.com'' [(''a@x.com'', ''could not send email'')]" 0] r3
  have c3: "\<exists>e st'. email ?E2
            (exampleMessage ''user1@domain.com'' [(''a@x.com'', ''could not send email'')])
            (initialState 0) = (Inl e, st') \<and> rejectCalls st' = []"
    by auto
  from c1 c2 c3 show ?thesis
    by (intro conjI)
qed

section \<open>The reject reason\<close>

lemma indexOfFrom_single: "0 \<le> indexOfFrom i s [c] \<longleftrightarrow> c \<in> set s"
  by (induction i s "[c]" rule: indexOfFrom.induct) (auto simp: startsWith_def)

lemma includes_str_single: "includes_str s [c] \<longleftrightarrow> c \<in> set s"
  by (simp add: includes_str_def indexOf_def indexOfFrom_single)

lemma set_dropWhile_keep: "\<not> P c \<Longrightarrow> c \<in> set (dropWhile P xs) \<longleftrightarrow> c \<in> set xs"
  by (induction xs) auto

lemma set_trim_keep: "\<not> isWhiteSpace c \<Longrightarrow> c \<in> set (trim s) \<longleftrightarrow> c \<in> set s"
  by (simp add: trim_def set_dropWhile_keep)

lemma at_sign_not_white: "\<not> isWhiteSpace CHR ''@''"
  by (simp add: isWhiteSpace_def)

lemma includes_at_trim: "includes_str (trim s) ''@'' \<longleftrightarrow> includes_str s ''@''"
  by (simp add: includes_str_single set_trim_keep at_sign_not_white)

lemma default_reason: "trim DEFAULTS_REJECT_TREATMENT = ''Address does not exist''"
  "\<not> includes_str (trim DEFAULTS_REJECT_TREATMENT) ''@''"
  by code_simp+

lemma email_rejectCalls:
  "rejectCalls (snd (email env message st)) = rejectCalls st
   \<or> rejectCalls (snd (email env message st)) = rejectCalls st @ [fullRejectReason env message]"
proof (cases "validateCustomHeader env (CUSTOM_HEADER env)")
  case (Inl e)
  then show ?thesis by (simp add: email_def)
next
  case h: (Inr ch)
  show ?thesis
  proof (cases "userDestination env message")
    case (Inl e)
    then show ?thesis by (simp add: email_def h)
  next
    case d: (Inr dest)
    from acceptForward_calls[of env message ch dest st]
    obtain res1 st1 where
      a: "acceptForward env message ch dest st = (res1, st1)"
      and a2: "rejectCalls st1 = rejectCalls st"
      by blast
    from rejectForward_calls[of env message ch st1]
    obtain res2 st2 where
      r: "rejectForward env message ch st1 = (res2, st2)"
      and r2: "rejectCalls st2 = rejectCalls st1"
      by blast
    show ?thesis
      unfolding email_steps[OF h d a r]
      using a2 r2 by (simp add: setReject_def split: sum.splits)
  qed
qed


text \<open>
  Claim C6, as stated, fails. With an empty \<open>@REJECT_TREATMENT\<close> in the store, the
  resolved per-user reject treatment is the empty string. It is the first candidate of
  the chain and does not contain \<open>@\<close>, yet the reason of the direct reject is not the
  empty string but the reject treatment of the environment.
\<close>

theorem userRejectReason_counterexample:
  "userRejectTreatment emptyStoredRejectTreatmentEnvironment
       (exampleMessage ''user2@domain.com'' []) = []
   \<and> \<not> includes_str (userRejectTreatment emptyStoredRejectTreatmentEnvironment
                         (exampleMessage ''user2@domain.com'' [])) ''@''
   \<and> userRejectReason emptyStoredRejectTreatmentEnvironment
         (exampleMessage ''user2@domain.com'' []) = ''default reject reason''
   \<and> rejectCalls (snd (email emptyStoredRejectTreatmentEnvironment
         (exampleMessage ''user2@domain.com'' []) (initialState 0)))
       = [''default reject reason'']"
  by code_simp

text \<open>
  Claim C6, amended. The reject reason is the first candidate, in the order resolved
  per-user reject treatment, resolved global reject treatment, trimmed reject treatment
  of the environment, hard default, that is not empty and does not contain \<open>@\<close>. The
  full reject reason is this reason with the local part of the message, as it was
  received, put in front of it when the reason begins with a character that is not
  alphanumeric, and the reason itself otherwise. When the handler calls \<open>setReject\<close>,
  it calls it once, with the full reject reason.
\<close>

theorem userRejectReason_fallback:
  "find (\<lambda>c. c \<noteq> [] \<and> \<not> includes_str c ''@'')
     [userRejectTreatment env message, globalRejectTreatment env,
      trim (REJECT_TREATMENT env), trim DEFAULTS_REJECT_TREATMENT]
     = Some (userRejectReason env message)
   \<and> fullRejectReason env message
       = (if startsWithNonAlphanumericRegExp (userRejectReason env message)
          then messageLocalPart message @ userRejectReason env message
          else userRejectReason env message)
   \<and> (rejectCalls (snd (email env message st)) = rejectCalls st
       \<or> rejectCalls (snd (email env message st))
           = rejectCalls st @ [fullRejectReason env message])"
proof (intro conjI)
  show "find (\<lambda>c. c \<noteq> [] \<and> \<not> includes_str c ''@'')
     [userRejectTreatment env message, globalRejectTreatment env,
      trim (REJECT_TREATMENT env), trim DEFAULTS_REJECT_TREATMENT]
     = Some (userRejectReason env message)"
    using default_reason by (auto simp: userRejectReason_def includes_at_trim)
  show "fullRejectReason env message
       = (if startsWithNonAlphanumericRegExp (userRejectReason env message)
          then messageLocalPart message @ userRejectReason env message
          else userRejectReason env message)"
    by (simp add: fullRejectReason_def)
  show "rejectCalls (snd (email env message st)) = rejectCalls st
       \<or> rejectCalls (snd (email env message st))
           = rejectCalls st @ [fullRejectReason env message]"
    by (rule email_rejectCalls)
qed

theorem userRejectReason_fallback_witness:
  "userRejectReason spamRejectTreatmentEnvironment (exampleMessage ''user+tag@domain.com'' [])
     = '': spam''
   \<and> startsWithNonAlphanumericRegExp '': spam''
   \<and> fullRejectReason spamRejectTreatmentEnvironment (exampleMessage ''user+tag@domain.com'' [])
     = ''user+tag: spam''
   \<and> rejectCalls (snd (email spamRejectTreatmentEnvironment
         (exampleMessage ''user+tag@domain.com'' []) (initialState 0)))
     = [''user+tag: spam'']
   \<and> \<not> startsWithNonAlphanumericRegExp ''default reject reason''
   \<and> fullRejectReason emptyStoredRejectTreatmentEnvironment
         (exampleMessage ''user2@domain.com'' [])
     = ''default reject reason''"
proof -
  let ?E = spamRejectTreatmentEnvironment
  let ?M = "exampleMessage ''user+tag@domain.com'' [] :: nat message"
  let ?E2 = emptyStoredRejectTreatmentEnvironment
  let ?M2 = "exampleMessage ''user2@domain.com'' [] :: nat message"
  have u: "userRejectReason ?E ?M = '': spam''"
    by code_simp
  have l: "messageLocalPart ?M = ''user+tag''"
    by code_simp
  have n: "startsWithNonAlphanumericRegExp '': spam''"
    by code_simp
  have c: "rejectCalls (snd (email ?E ?M (initialState 0))) \<noteq> rejectCalls (initialState (0::nat))"
    by code_simp
  have u2: "userRejectReason ?E2 ?M2 = ''default reject reason''"
    by code_simp
  have n2: "\<not> startsWithNonAlphanumericRegExp ''default reject reason''"
    by code_simp
  note t = userRejectReason_fallback[of ?E ?M "initialState 0"]
  note t2 = userRejectReason_fallback[of ?E2 ?M2 "initialState 0"]
  have f: "fullRejectReason ?E ?M = ''user+tag: spam''"
    using t[THEN conjunct2, THEN conjunct1] u l n by simp
  have r: "rejectCalls (snd (email ?E ?M (initialState 0))) = [''user+tag: spam'']"
    using t[THEN conjunct2, THEN conjunct2] c f by (simp add: initialState_def)
  have f2: "fullRejectReason ?E2 ?M2 = ''default reject reason''"
    using t2[THEN conjunct2, THEN conjunct1] u2 n2 by simp
  show ?thesis
    by (intro conjI u n f r n2 f2)
qed

section \<open>The allow lists\<close>

lemma startsWith_iff: "startsWith s t \<longleftrightarrow> (\<exists>rest. s = t @ rest)"
proof
  assume "startsWith s t"
  then have "s = t @ drop (length t) s"
    unfolding startsWith_def by (metis append_take_drop_id)
  then show "\<exists>rest. s = t @ rest" ..
next
  assume "\<exists>rest. s = t @ rest"
  then show "startsWith s t"
    by (auto simp: startsWith_def)
qed

text \<open>
  Claim C7. The message user is allowed iff the stored user configuration is enabled
  and the store holds the key of the user, whatever the value, or the resolved global
  users are \<open>*\<close>, or the user is one of the trimmed entries of the resolved global users,
  split at the separator of primary addresses (a comma by default).
\<close>

theorem messageUserIsAllowed_iff:
  "messageUserIsAllowed env message \<longleftrightarrow>
     (useStoredUserConfiguration env \<and> (\<exists>v. MAP env (messageUser env message) = Some v))
     \<or> globalUsers env = ''*''
     \<or> messageUser env message
         \<in> set (map trim (split (globalUsers env) (FORMAT_PRIMARY_ADDRESS_SEPARATOR env)))"
  by (auto simp: messageUserIsAllowed_def userDestinationWithRejectTreatment_def
        storedConfigurationValue_def)

theorem messageUserIsAllowed_iff_witness:
  "useStoredUserConfiguration storedUserEnvironment
   \<and> MAP storedUserEnvironment (messageUser storedUserEnvironment
         (exampleMessage ''User1@domain.com'' [])) = Some []
   \<and> messageUserIsAllowed storedUserEnvironment (exampleMessage ''User1@domain.com'' [])
   \<and> \<not> messageUserIsAllowed storedUserEnvironment (exampleMessage ''user2@domain.com'' [])
   \<and> messageUserIsAllowed mandatorySubaddressEnvironment (exampleMessage ''user1@domain.com'' [])
   \<and> \<not> useStoredUserConfiguration disabledStoredUserEnvironment
   \<and> \<not> messageUserIsAllowed disabledStoredUserEnvironment
         (exampleMessage ''User1@domain.com'' [])
   \<and> globalUsers storedGlobalUsersEnvironment = ''user1 , user2''
   \<and> messageUserIsAllowed storedGlobalUsersEnvironment (exampleMessage ''user2@domain.com'' [])
   \<and> \<not> messageUserIsAllowed storedGlobalUsersEnvironment
         (exampleMessage ''user9@domain.com'' [])"
proof -
  let ?M = "exampleMessage ''User1@domain.com'' [] :: nat message"
  let ?M2 = "exampleMessage ''user2@domain.com'' [] :: nat message"
  let ?M3 = "exampleMessage ''user1@domain.com'' [] :: nat message"
  let ?M9 = "exampleMessage ''user9@domain.com'' [] :: nat message"
  let ?D = disabledStoredUserEnvironment
  let ?G = storedGlobalUsersEnvironment
  have s: "useStoredUserConfiguration storedUserEnvironment"
    by code_simp
  have m: "MAP storedUserEnvironment (messageUser storedUserEnvironment ?M) = Some []"
    by code_simp
  have m2: "MAP storedUserEnvironment (messageUser storedUserEnvironment ?M2) = None"
    by code_simp
  have g: "globalUsers storedUserEnvironment = []"
    by code_simp
  have p: "split [] (FORMAT_PRIMARY_ADDRESS_SEPARATOR storedUserEnvironment) = [[]]"
    by code_simp
  have u2: "messageUser storedUserEnvironment ?M2 = ''user2''"
    by code_simp
  have g3: "messageUser mandatorySubaddressEnvironment ?M3
      \<in> set (map trim (split (globalUsers mandatorySubaddressEnvironment)
                          (FORMAT_PRIMARY_ADDRESS_SEPARATOR mandatorySubaddressEnvironment)))"
    by code_simp
  have ds: "\<not> useStoredUserConfiguration ?D"
    by code_simp
  have dg: "globalUsers ?D \<noteq> ''*''"
    by code_simp
  have dm: "messageUser ?D ?M
      \<notin> set (map trim (split (globalUsers ?D) (FORMAT_PRIMARY_ADDRESS_SEPARATOR ?D)))"
    by code_simp
  have gg: "globalUsers ?G = ''user1 , user2''"
    by code_simp
  have g2: "messageUser ?G ?M2
      \<in> set (map trim (split (globalUsers ?G) (FORMAT_PRIMARY_ADDRESS_SEPARATOR ?G)))"
    by code_simp
  have g9s: "MAP ?G (messageUser ?G ?M9) = None"
    by code_simp
  have g9g: "globalUsers ?G \<noteq> ''*''"
    by code_simp
  have g9m: "messageUser ?G ?M9
      \<notin> set (map trim (split (globalUsers ?G) (FORMAT_PRIMARY_ADDRESS_SEPARATOR ?G)))"
    by code_simp
  have a: "messageUserIsAllowed storedUserEnvironment ?M"
    using messageUserIsAllowed_iff[of storedUserEnvironment ?M] s m by simp
  have b: "\<not> messageUserIsAllowed storedUserEnvironment ?M2"
    using messageUserIsAllowed_iff[of storedUserEnvironment ?M2] m2 g p u2
    by (simp add: trim_def)
  have c: "messageUserIsAllowed mandatorySubaddressEnvironment ?M3"
    using messageUserIsAllowed_iff[of mandatorySubaddressEnvironment ?M3] g3 by simp
  have d: "\<not> messageUserIsAllowed ?D ?M"
    using messageUserIsAllowed_iff[of ?D ?M] ds dg dm by blast
  have e: "messageUserIsAllowed ?G ?M2"
    using messageUserIsAllowed_iff[of ?G ?M2] g2 by blast
  have f: "\<not> messageUserIsAllowed ?G ?M9"
    using messageUserIsAllowed_iff[of ?G ?M9] g9s g9g g9m by simp
  show ?thesis
    by (intro conjI s m a b c ds d gg e f)
qed

text \<open>
  Claim C8. Let the resolved subaddress configuration of the user be \<open>v\<close>. A recipient
  without subaddress is not allowed when \<open>v\<close> is the separator of the local part
  followed by some rest, and is allowed when \<open>v\<close> does not begin with the separator. A
  recipient with a subaddress is allowed iff the concrete list is \<open>*\<close> or has the
  subaddress among its trimmed entries, where the concrete list is the trimmed rest when
  \<open>v\<close> is the separator followed by the rest (one leading separator is stripped), and
  the trimmed \<open>v\<close> itself when \<open>v\<close> does not begin with the separator.
\<close>

theorem messageSubaddressIsAllowed_cases:
  "(messageSubaddress env message = []
      \<and> userSubaddresses env message = FORMAT_LOCAL_PART_SEPARATOR env @ rest
      \<longrightarrow> \<not> messageSubaddressIsAllowed env message)
   \<and> (messageSubaddress env message = []
      \<and> (\<forall>rest'. userSubaddresses env message \<noteq> FORMAT_LOCAL_PART_SEPARATOR env @ rest')
      \<longrightarrow> messageSubaddressIsAllowed env message)
   \<and> (messageSubaddress env message \<noteq> []
      \<and> userSubaddresses env message = FORMAT_LOCAL_PART_SEPARATOR env @ rest
      \<longrightarrow> (messageSubaddressIsAllowed env message \<longleftrightarrow>
             trim rest = ''*''
             \<or> messageSubaddress env message
                 \<in> set (map trim (split (trim rest) (FORMAT_PRIMARY_ADDRESS_SEPARATOR env)))))
   \<and> (messageSubaddress env message \<noteq> []
      \<and> (\<forall>rest'. userSubaddresses env message \<noteq> FORMAT_LOCAL_PART_SEPARATOR env @ rest')
      \<longrightarrow> (messageSubaddressIsAllowed env message \<longleftrightarrow>
             trim (userSubaddresses env message) = ''*''
             \<or> messageSubaddress env message
                 \<in> set (map trim (split (trim (userSubaddresses env message))
                                     (FORMAT_PRIMARY_ADDRESS_SEPARATOR env)))))"
proof -
  let ?v = "userSubaddresses env message"
  let ?sep = "FORMAT_LOCAL_PART_SEPARATOR env"
  have starts: "startsWith ?v ?sep \<longleftrightarrow> (\<exists>rest'. ?v = ?sep @ rest')"
    by (rule startsWith_iff)
  have strip: "?v = ?sep @ rest \<Longrightarrow> removeLeadingLocalPartSeparator env ?v = rest"
    by (simp add: removeLeadingLocalPartSeparator_def startsWith_def)
  have keep: "\<forall>rest'. ?v \<noteq> ?sep @ rest' \<Longrightarrow> removeLeadingLocalPartSeparator env ?v = ?v"
    using starts by (simp add: removeLeadingLocalPartSeparator_def)
  show ?thesis
  proof (intro conjI impI)
    assume "messageSubaddress env message = [] \<and> ?v = ?sep @ rest"
    then show "\<not> messageSubaddressIsAllowed env message"
      using starts by (auto simp: messageSubaddressIsAllowed_def userRequiresSubaddress_def)
  next
    assume "messageSubaddress env message = [] \<and> (\<forall>rest'. ?v \<noteq> ?sep @ rest')"
    then show "messageSubaddressIsAllowed env message"
      using starts by (simp add: messageSubaddressIsAllowed_def userRequiresSubaddress_def)
  next
    assume a: "messageSubaddress env message \<noteq> [] \<and> ?v = ?sep @ rest"
    then have "userConcreteSubaddresses env message = trim rest"
      using strip by (simp add: userConcreteSubaddresses_def)
    with a show "messageSubaddressIsAllowed env message \<longleftrightarrow>
             trim rest = ''*''
             \<or> messageSubaddress env message
                 \<in> set (map trim (split (trim rest) (FORMAT_PRIMARY_ADDRESS_SEPARATOR env)))"
      by (simp add: messageSubaddressIsAllowed_def)
  next
    assume a: "messageSubaddress env message \<noteq> [] \<and> (\<forall>rest'. ?v \<noteq> ?sep @ rest')"
    then have "userConcreteSubaddresses env message = trim ?v"
      using keep by (simp add: userConcreteSubaddresses_def)
    with a show "messageSubaddressIsAllowed env message \<longleftrightarrow>
             trim ?v = ''*''
             \<or> messageSubaddress env message
                 \<in> set (map trim (split (trim ?v) (FORMAT_PRIMARY_ADDRESS_SEPARATOR env)))"
      by (simp add: messageSubaddressIsAllowed_def)
  qed
qed

theorem messageSubaddressIsAllowed_cases_witness:
  "userSubaddresses mandatorySubaddressEnvironment (exampleMessage ''user1@domain.com'' [])
     = FORMAT_LOCAL_PART_SEPARATOR mandatorySubaddressEnvironment @ ''suba, subb''
   \<and> messageSubaddress mandatorySubaddressEnvironment (exampleMessage ''user1@domain.com'' []) = []
   \<and> \<not> messageSubaddressIsAllowed mandatorySubaddressEnvironment
         (exampleMessage ''user1@domain.com'' [])
   \<and> messageSubaddress mandatorySubaddressEnvironment
         (exampleMessage ''user1+SubA@domain.com'' []) = ''suba''
   \<and> messageSubaddressIsAllowed mandatorySubaddressEnvironment
         (exampleMessage ''user1+SubA@domain.com'' [])
   \<and> messageSubaddressIsAllowed mandatorySubaddressEnvironment
         (exampleMessage ''user1+subb@domain.com'' [])
   \<and> \<not> messageSubaddressIsAllowed mandatorySubaddressEnvironment
         (exampleMessage ''user1+subc@domain.com'' [])
   \<and> (\<forall>rest'. userSubaddresses exampleEnvironment (exampleMessage ''user1@domain.com'' [])
                 \<noteq> FORMAT_LOCAL_PART_SEPARATOR exampleEnvironment @ rest')
   \<and> messageSubaddressIsAllowed exampleEnvironment (exampleMessage ''user1@domain.com'' [])
   \<and> messageSubaddressIsAllowed exampleEnvironment (exampleMessage ''user1+any@domain.com'' [])"
proof -
  let ?E = mandatorySubaddressEnvironment
  let ?M = "exampleMessage ''user1@domain.com'' [] :: nat message"
  let ?Ma = "exampleMessage ''user1+SubA@domain.com'' [] :: nat message"
  let ?Mb = "exampleMessage ''user1+subb@domain.com'' [] :: nat message"
  let ?Mc = "exampleMessage ''user1+subc@domain.com'' [] :: nat message"
  let ?My = "exampleMessage ''user1+any@domain.com'' [] :: nat message"
  have v: "userSubaddresses ?E ?M = FORMAT_LOCAL_PART_SEPARATOR ?E @ ''suba, subb''"
    by code_simp
  have va: "userSubaddresses ?E ?Ma = FORMAT_LOCAL_PART_SEPARATOR ?E @ ''suba, subb''"
    by code_simp
  have vb: "userSubaddresses ?E ?Mb = FORMAT_LOCAL_PART_SEPARATOR ?E @ ''suba, subb''"
    by code_simp
  have vc: "userSubaddresses ?E ?Mc = FORMAT_LOCAL_PART_SEPARATOR ?E @ ''suba, subb''"
    by code_simp
  have e: "messageSubaddress ?E ?M = []"
    by code_simp
  have sa: "messageSubaddress ?E ?Ma = ''suba''"
    by code_simp
  have sb: "messageSubaddress ?E ?Mb = ''subb''"
    by code_simp
  have sc: "messageSubaddress ?E ?Mc = ''subc''"
    by code_simp
  have t: "trim ''suba, subb'' = ''suba, subb''"
    by code_simp
  have l: "map trim (split ''suba, subb'' (FORMAT_PRIMARY_ADDRESS_SEPARATOR ?E))
             = [''suba'', ''subb'']"
    by code_simp
  have v0: "userSubaddresses exampleEnvironment ?M = ''*''"
    by code_simp
  have vy: "userSubaddresses exampleEnvironment ?My = ''*''"
    by code_simp
  have p0: "FORMAT_LOCAL_PART_SEPARATOR exampleEnvironment = ''+''"
    by code_simp
  have e0: "messageSubaddress exampleEnvironment ?M = []"
    by code_simp
  have sy: "messageSubaddress exampleEnvironment ?My = ''any''"
    by code_simp
  have t0: "trim ''*'' = ''*''"
    by code_simp
  have n0: "\<forall>rest'. userSubaddresses exampleEnvironment ?M
                 \<noteq> FORMAT_LOCAL_PART_SEPARATOR exampleEnvironment @ rest'"
    by (simp add: v0 p0)
  have ny: "\<forall>rest'. userSubaddresses exampleEnvironment ?My
                 \<noteq> FORMAT_LOCAL_PART_SEPARATOR exampleEnvironment @ rest'"
    by (simp add: vy p0)
  have a: "\<not> messageSubaddressIsAllowed ?E ?M"
    using messageSubaddressIsAllowed_cases[of ?E ?M "''suba, subb''", THEN conjunct1] e v
    by blast
  have b1: "messageSubaddressIsAllowed ?E ?Ma"
    using messageSubaddressIsAllowed_cases[of ?E ?Ma "''suba, subb''",
            THEN conjunct2, THEN conjunct2, THEN conjunct1] sa va
    by (simp add: t l)
  have b2: "messageSubaddressIsAllowed ?E ?Mb"
    using messageSubaddressIsAllowed_cases[of ?E ?Mb "''suba, subb''",
            THEN conjunct2, THEN conjunct2, THEN conjunct1] sb vb
    by (simp add: t l)
  have c: "\<not> messageSubaddressIsAllowed ?E ?Mc"
    using messageSubaddressIsAllowed_cases[of ?E ?Mc "''suba, subb''",
            THEN conjunct2, THEN conjunct2, THEN conjunct1] sc vc
    by (simp add: t l)
  have d: "messageSubaddressIsAllowed exampleEnvironment ?M"
    using messageSubaddressIsAllowed_cases[of exampleEnvironment ?M "[]",
            THEN conjunct2, THEN conjunct1] e0 n0
    by blast
  have y: "messageSubaddressIsAllowed exampleEnvironment ?My"
    using messageSubaddressIsAllowed_cases[of exampleEnvironment ?My "[]",
            THEN conjunct2, THEN conjunct2, THEN conjunct2] sy ny
    by (simp add: vy t0)
  show ?thesis
    by (intro conjI v e a sa b1 b2 c n0 d y)
qed

end
